theory Spec2Isabelle
  imports Main "HOL-Library.Word"
begin

unbundle bit_operations_syntax

chapter \<open>The keeg hashing library: a shallow embedding and its properties\<close>

text \<open>
  The theory embeds the hashing classes of the library (\<^verbatim>\<open>HashAlgorithm\<close>, \<^verbatim>\<open>Md5\<close>,
  \<^verbatim>\<open>Sha1\<close>, \<^verbatim>\<open>Sha256\<close>, \<^verbatim>\<open>Sha3\<close>, \<^verbatim>\<open>Crc32\<close>, \<^verbatim>\<open>Crc64\<close>, \<^verbatim>\<open>XxHash32\<close>, \<^verbatim>\<open>XxHash64\<close>)
  as functions on records of their member variables.  Unsigned C++ integers of a fixed
  width are words of that width; \<^verbatim>\<open>std::size_t\<close> byte counts and array indices are
  natural numbers.  A pointer into a byte array together with a length is the list of the
  bytes it designates.

  The sources select code by \<^verbatim>\<open>__BYTE_ORDER\<close>.  The embedding is that of a little-endian
  host: the big-endian branches of \<^verbatim>\<open>Crc32::hashCore\<close> and \<^verbatim>\<open>Crc64::hashCore\<close> call an
  unqualified \<^verbatim>\<open>swap\<close> that is not in scope, and the one of \<^verbatim>\<open>Crc64\<close> has an unbalanced
  parenthesis, so only the little-endian configuration of the library compiles.
\<close>

section \<open>Bytes, words and the endian primitives\<close>

type_synonym byte = "8 word"
type_synonym u32 = "32 word"
type_synonym u64 = "64 word"

text \<open>
  \<^verbatim>\<open>keeg::endian::rotateLeft\<close> and \<^verbatim>\<open>rotateRight\<close> (portable branch): the count is
  masked with the width minus one, the opposite shift is by \<^verbatim>\<open>(-numBits) & mask\<close>.
\<close>

definition rotateLeft32 :: "u32 \<Rightarrow> nat \<Rightarrow> u32" where
  "rotateLeft32 x numBits =
     (let n = numBits mod 32 in push_bit n x OR drop_bit ((32 - n) mod 32) x)"

definition rotateRight32 :: "u32 \<Rightarrow> nat \<Rightarrow> u32" where
  "rotateRight32 x numBits =
     (let n = numBits mod 32 in drop_bit n x OR push_bit ((32 - n) mod 32) x)"

definition rotateLeft64 :: "u64 \<Rightarrow> nat \<Rightarrow> u64" where
  "rotateLeft64 x numBits =
     (let n = numBits mod 64 in push_bit n x OR drop_bit ((64 - n) mod 64) x)"

text \<open>\<^verbatim>\<open>keeg::endian::swap(uint32_t)\<close>, portable branch.\<close>

definition swap32 :: "u32 \<Rightarrow> u32" where
  "swap32 x = drop_bit 24 x OR (drop_bit 8 x AND 0x0000FF00) OR
              (push_bit 8 x AND 0x00FF0000) OR push_bit 24 x"

text \<open>
  Reading an integer through a cast pointer (\<^verbatim>\<open>GET32BITS\<close>, \<^verbatim>\<open>GET64BITS\<close>,
  \<^verbatim>\<open>static_cast<const uint32_t*>(data)[i]\<close>) on the little-endian host: the byte at the
  lowest address is the least significant one.  \<open>bs\<close> is the byte array, \<open>off\<close> the byte
  offset of the integer.
\<close>

definition get32bits :: "byte list \<Rightarrow> nat \<Rightarrow> u32" where
  "get32bits bs off =
     ucast (bs ! off) OR push_bit 8 (ucast (bs ! (off + 1))) OR
     push_bit 16 (ucast (bs ! (off + 2))) OR push_bit 24 (ucast (bs ! (off + 3)))"

definition get64bits :: "byte list \<Rightarrow> nat \<Rightarrow> u64" where
  "get64bits bs off =
     ucast (bs ! off) OR push_bit 8 (ucast (bs ! (off + 1))) OR
     push_bit 16 (ucast (bs ! (off + 2))) OR push_bit 24 (ucast (bs ! (off + 3))) OR
     push_bit 32 (ucast (bs ! (off + 4))) OR push_bit 40 (ucast (bs ! (off + 5))) OR
     push_bit 48 (ucast (bs ! (off + 6))) OR push_bit 56 (ucast (bs ! (off + 7)))"

text \<open>
  The bytes of an integer in the memory of the little-endian host, as
  \<^verbatim>\<open>reinterpret_cast<uint8_t*>(&x)\<close> reads them.
\<close>

definition memory_bytes32 :: "u32 \<Rightarrow> byte list" where
  "memory_bytes32 x = [ucast x, ucast (drop_bit 8 x), ucast (drop_bit 16 x), ucast (drop_bit 24 x)]"

definition memory_bytes64 :: "u64 \<Rightarrow> byte list" where
  "memory_bytes64 x =
     [ucast x, ucast (drop_bit 8 x), ucast (drop_bit 16 x), ucast (drop_bit 24 x),
      ucast (drop_bit 32 x), ucast (drop_bit 40 x), ucast (drop_bit 48 x), ucast (drop_bit 56 x)]"

text \<open>
  Modelled from the spec: \<^verbatim>\<open>boost::endian::native_to_big\<close>, which
  \<^verbatim>\<open>keeg::endian::native_to_big\<close> forwards to, is not part of the repository.  On the
  little-endian host it reverses the bytes of its argument.
\<close>

definition native_to_big32 :: "u32 \<Rightarrow> u32" where
  "native_to_big32 x = get32bits (rev (memory_bytes32 x)) 0"

definition native_to_big64 :: "u64 \<Rightarrow> u64" where
  "native_to_big64 x = get64bits (rev (memory_bytes64 x)) 0"

text \<open>The big-endian rendering of an integer: most significant byte first.\<close>

definition big_endian32 :: "u32 \<Rightarrow> byte list" where
  "big_endian32 x = [ucast (drop_bit 24 x), ucast (drop_bit 16 x), ucast (drop_bit 8 x), ucast x]"

definition big_endian64 :: "u64 \<Rightarrow> byte list" where
  "big_endian64 x =
     [ucast (drop_bit 56 x), ucast (drop_bit 48 x), ucast (drop_bit 40 x), ucast (drop_bit 32 x),
      ucast (drop_bit 24 x), ucast (drop_bit 16 x), ucast (drop_bit 8 x), ucast x]"

text \<open>The little-endian rendering: least significant byte first.\<close>

definition little_endian32 :: "u32 \<Rightarrow> byte list" where
  "little_endian32 x = [ucast x, ucast (drop_bit 8 x), ucast (drop_bit 16 x), ucast (drop_bit 24 x)]"

definition little_endian64 :: "u64 \<Rightarrow> byte list" where
  "little_endian64 x =
     [ucast x, ucast (drop_bit 8 x), ucast (drop_bit 16 x), ucast (drop_bit 24 x),
      ucast (drop_bit 32 x), ucast (drop_bit 40 x), ucast (drop_bit 48 x), ucast (drop_bit 56 x)]"

section \<open>The base class HashAlgorithm\<close>

text \<open>
  The one data member of \<^verbatim>\<open>HashAlgorithm\<close> is \<^verbatim>\<open>m_hashValue\<close>; the record of every
  derived class extends this one.
\<close>

record hash_algorithm =
  m_hashValue :: "byte list"

section \<open>The block-buffering engine of Md5, Sha1, Sha256 and Sha3\<close>

text \<open>
  The four classes declare the same members: the byte count \<^verbatim>\<open>m_numBytes\<close>, the buffer
  \<^verbatim>\<open>m_buffer\<close> with its fill level \<^verbatim>\<open>m_bufferSize\<close>, and the register file \<^verbatim>\<open>m_hash\<close>
  (32-bit registers for Md5, Sha1 and Sha256, 64-bit lanes for Sha3).
\<close>

record 'w block_state = hash_algorithm +
  m_numBytes :: u64
  m_bufferSize :: nat
  m_buffer :: "byte list"
  m_hash :: "'w list"

type_synonym md_state = "u32 block_state"

text \<open>
  \<^verbatim>\<open>hashCore\<close> has the same body in the four classes, up to the block size
  (\<^verbatim>\<open>BLOCK_SIZE\<close>, or the member \<^verbatim>\<open>m_blockSize\<close> of Sha3) and to \<^verbatim>\<open>processBlock\<close>.  The
  embedding has one copy with the two as parameters \<open>B\<close> and \<open>pb\<close>.  \<^verbatim>\<open>processBlock\<close>
  reads the block at its pointer argument and reads and writes \<^verbatim>\<open>m_hash\<close> only: \<open>pb\<close> maps
  the register file and the \<open>B\<close> bytes at the pointer to the new register file.

  First loop: \<^verbatim>\<open>while (numBytes > 0 && m_bufferSize < BLOCK_SIZE) m_buffer[m_bufferSize++] = *current++;\<close>
  The result is the state and the input that is left.
\<close>

fun fill_buffer ::
  "nat \<Rightarrow> ('w, 'm) block_state_scheme \<Rightarrow> byte list \<Rightarrow> ('w, 'm) block_state_scheme \<times> byte list"
where
  "fill_buffer B s [] = (s, [])"
| "fill_buffer B s (x # xs) =
     (if m_bufferSize s < B
      then fill_buffer B (s\<lparr>m_buffer := (m_buffer s)[m_bufferSize s := x],
                              m_bufferSize := m_bufferSize s + 1\<rparr>) xs
      else (s, x # xs))"

text \<open>
  Second loop: \<^verbatim>\<open>while (numBytes >= BLOCK_SIZE) { processBlock(current); current += BLOCK_SIZE;
  m_numBytes += BLOCK_SIZE; numBytes -= BLOCK_SIZE; }\<close>  The block size is positive in every
  instance; the test \<open>0 < B\<close> makes the recursion total for the parameter.
\<close>

function process_full_blocks ::
  "nat \<Rightarrow> ('w list \<Rightarrow> byte list \<Rightarrow> 'w list) \<Rightarrow> ('w, 'm) block_state_scheme \<Rightarrow> byte list
     \<Rightarrow> ('w, 'm) block_state_scheme \<times> byte list"
where
  "process_full_blocks B pb s data =
     (if 0 < B \<and> B \<le> length data
      then process_full_blocks B pb
             (s\<lparr>m_hash := pb (m_hash s) (take B data), m_numBytes := m_numBytes s + of_nat B\<rparr>)
             (drop B data)
      else (s, data))"
  by pat_completeness auto
termination
  by (relation "measure (\<lambda>(B, pb, s, data). length data)") auto

declare process_full_blocks.simps [simp del]

text \<open>Third loop: \<^verbatim>\<open>while (numBytes > 0) { m_buffer[m_bufferSize++] = *current++; numBytes--; }\<close>\<close>

fun keep_remaining :: "('w, 'm) block_state_scheme \<Rightarrow> byte list \<Rightarrow> ('w, 'm) block_state_scheme" where
  "keep_remaining s [] = s"
| "keep_remaining s (x # xs) =
     keep_remaining (s\<lparr>m_buffer := (m_buffer s)[m_bufferSize s := x],
                       m_bufferSize := m_bufferSize s + 1\<rparr>) xs"

definition block_hashCore ::
  "nat \<Rightarrow> ('w list \<Rightarrow> byte list \<Rightarrow> 'w list) \<Rightarrow> ('w, 'm) block_state_scheme \<Rightarrow> byte list
     \<Rightarrow> ('w, 'm) block_state_scheme"
where
  "block_hashCore B pb s data =
     (let (s1, current) = (if 0 < m_bufferSize s then fill_buffer B s data else (s, data));
          s2 = (if m_bufferSize s1 = B
                then s1\<lparr>m_hash := pb (m_hash s1) (take B (m_buffer s1)),
                        m_numBytes := m_numBytes s1 + of_nat B,
                        m_bufferSize := 0\<rparr>
                else s1)
      in if current = [] then s2
         else (let (s3, current) = process_full_blocks B pb s2 current
               in keep_remaining s3 current))"

section \<open>Md5\<close>

definition Md5_f1 :: "u32 \<Rightarrow> u32 \<Rightarrow> u32 \<Rightarrow> u32" where
  "Md5_f1 b c d = d XOR (b AND (c XOR d))"

definition Md5_f2 :: "u32 \<Rightarrow> u32 \<Rightarrow> u32 \<Rightarrow> u32" where
  "Md5_f2 b c d = c XOR (d AND (b XOR c))"

definition Md5_f3 :: "u32 \<Rightarrow> u32 \<Rightarrow> u32 \<Rightarrow> u32" where
  "Md5_f3 b c d = b XOR c XOR d"

definition Md5_f4 :: "u32 \<Rightarrow> u32 \<Rightarrow> u32 \<Rightarrow> u32" where
  "Md5_f4 b c d = c XOR (b OR NOT d)"

definition Md5_hashSize :: nat where
  "Md5_hashSize = 8 * 16"

definition Md5_initialize :: "md_state \<Rightarrow> md_state" where
  "Md5_initialize s =
     s\<lparr>m_hashValue := [], m_numBytes := 0, m_bufferSize := 0,
       m_hash := [0x67452301, 0xefcdab89, 0x98badcfe, 0x10325476]\<rparr>"

text \<open>
  \<^verbatim>\<open>Md5::processBlock\<close>: \<open>h\<close> is \<^verbatim>\<open>m_hash\<close>, \<open>data\<close> the 64 bytes of the block;
  \<^verbatim>\<open>LITTLEENDIAN(words[i])\<close> is the 32-bit read at byte offset \<open>4 * i\<close>.
\<close>

definition Md5_processBlock :: "u32 list \<Rightarrow> byte list \<Rightarrow> u32 list" where
  "Md5_processBlock h data =
    (let a = h ! 0; b = h ! 1; c = h ! 2; d = h ! 3;
         word0 = get32bits data 0;
         a = rotateLeft32 (a + Md5_f1 b c d + word0 + 0xd76aa478) 7 + b;
         word1 = get32bits data 4;
         d = rotateLeft32 (d + Md5_f1 a b c + word1 + 0xe8c7b756) 12 + a;
         word2 = get32bits data 8;
         c = rotateLeft32 (c + Md5_f1 d a b + word2 + 0x242070db) 17 + d;
         word3 = get32bits data 12;
         b = rotateLeft32 (b + Md5_f1 c d a + word3 + 0xc1bdceee) 22 + c;
         word4 = get32bits data 16;
         a = rotateLeft32 (a + Md5_f1 b c d + word4 + 0xf57c0faf) 7 + b;
         word5 = get32bits data 20;
         d = rotateLeft32 (d + Md5_f1 a b c + word5 + 0x4787c62a) 12 + a;
         word6 = get32bits data 24;
         c = rotateLeft32 (c + Md5_f1 d a b + word6 + 0xa8304613) 17 + d;
         word7 = get32bits data 28;
         b = rotateLeft32 (b + Md5_f1 c d a + word7 + 0xfd469501) 22 + c;
         word8 = get32bits data 32;
         a = rotateLeft32 (a + Md5_f1 b c d + word8 + 0x698098d8) 7 + b;
         word9 = get32bits data 36;
         d = rotateLeft32 (d + Md5_f1 a b c + word9 + 0x8b44f7af) 12 + a;
         word10 = get32bits data 40;
         c = rotateLeft32 (c + Md5_f1 d a b + word10 + 0xffff5bb1) 17 + d;
         word11 = get32bits data 44;
         b = rotateLeft32 (b + Md5_f1 c d a + word11 + 0x895cd7be) 22 + c;
         word12 = get32bits data 48;
         a = rotateLeft32 (a + Md5_f1 b c d + word12 + 0x6b901122) 7 + b;
         word13 = get32bits data 52;
         d = rotateLeft32 (d + Md5_f1 a b c + word13 + 0xfd987193) 12 + a;
         word14 = get32bits data 56;
         c = rotateLeft32 (c + Md5_f1 d a b + word14 + 0xa679438e) 17 + d;
         word15 = get32bits data 60;
         b = rotateLeft32 (b + Md5_f1 c d a + word15 + 0x49b40821) 22 + c;
         a = rotateLeft32 (a + Md5_f2 b c d + word1 + 0xf61e2562) 5 + b;
         d = rotateLeft32 (d + Md5_f2 a b c + word6 + 0xc040b340) 9 + a;
         c = rotateLeft32 (c + Md5_f2 d a b + word11 + 0x265e5a51) 14 + d;
         b = rotateLeft32 (b + Md5_f2 c d a + word0 + 0xe9b6c7aa) 20 + c;
         a = rotateLeft32 (a + Md5_f2 b c d + word5 + 0xd62f105d) 5 + b;
         d = rotateLeft32 (d + Md5_f2 a b c + word10 + 0x02441453) 9 + a;
         c = rotateLeft32 (c + Md5_f2 d a b + word15 + 0xd8a1e681) 14 + d;
         b = rotateLeft32 (b + Md5_f2 c d a + word4 + 0xe7d3fbc8) 20 + c;
         a = rotateLeft32 (a + Md5_f2 b c d + word9 + 0x21e1cde6) 5 + b;
         d = rotateLeft32 (d + Md5_f2 a b c + word14 + 0xc33707d6) 9 + a;
         c = rotateLeft32 (c + Md5_f2 d a b + word3 + 0xf4d50d87) 14 + d;
         b = rotateLeft32 (b + Md5_f2 c d a + word8 + 0x455a14ed) 20 + c;
         a = rotateLeft32 (a + Md5_f2 b c d + word13 + 0xa9e3e905) 5 + b;
         d = rotateLeft32 (d + Md5_f2 a b c + word2 + 0xfcefa3f8) 9 + a;
         c = rotateLeft32 (c + Md5_f2 d a b + word7 + 0x676f02d9) 14 + d;
         b = rotateLeft32 (b + Md5_f2 c d a + word12 + 0x8d2a4c8a) 20 + c;
         a = rotateLeft32 (a + Md5_f3 b c d + word5 + 0xfffa3942) 4 + b;
         d = rotateLeft32 (d + Md5_f3 a b c + word8 + 0x8771f681) 11 + a;
         c = rotateLeft32 (c + Md5_f3 d a b + word11 + 0x6d9d6122) 16 + d;
         b = rotateLeft32 (b + Md5_f3 c d a + word14 + 0xfde5380c) 23 + c;
         a = rotateLeft32 (a + Md5_f3 b c d + word1 + 0xa4beea44) 4 + b;
         d = rotateLeft32 (d + Md5_f3 a b c + word4 + 0x4bdecfa9) 11 + a;
         c = rotateLeft32 (c + Md5_f3 d a b + word7 + 0xf6bb4b60) 16 + d;
         b = rotateLeft32 (b + Md5_f3 c d a + word10 + 0xbebfbc70) 23 + c;
         a = rotateLeft32 (a + Md5_f3 b c d + word13 + 0x289b7ec6) 4 + b;
         d = rotateLeft32 (d + Md5_f3 a b c + word0 + 0xeaa127fa) 11 + a;
         c = rotateLeft32 (c + Md5_f3 d a b + word3 + 0xd4ef3085) 16 + d;
         b = rotateLeft32 (b + Md5_f3 c d a + word6 + 0x04881d05) 23 + c;
         a = rotateLeft32 (a + Md5_f3 b c d + word9 + 0xd9d4d039) 4 + b;
         d = rotateLeft32 (d + Md5_f3 a b c + word12 + 0xe6db99e5) 11 + a;
         c = rotateLeft32 (c + Md5_f3 d a b + word15 + 0x1fa27cf8) 16 + d;
         b = rotateLeft32 (b + Md5_f3 c d a + word2 + 0xc4ac5665) 23 + c;
         a = rotateLeft32 (a + Md5_f4 b c d + word0 + 0xf4292244) 6 + b;
         d = rotateLeft32 (d + Md5_f4 a b c + word7 + 0x432aff97) 10 + a;
         c = rotateLeft32 (c + Md5_f4 d a b + word14 + 0xab9423a7) 15 + d;
         b = rotateLeft32 (b + Md5_f4 c d a + word5 + 0xfc93a039) 21 + c;
         a = rotateLeft32 (a + Md5_f4 b c d + word12 + 0x655b59c3) 6 + b;
         d = rotateLeft32 (d + Md5_f4 a b c + word3 + 0x8f0ccc92) 10 + a;
         c = rotateLeft32 (c + Md5_f4 d a b + word10 + 0xffeff47d) 15 + d;
         b = rotateLeft32 (b + Md5_f4 c d a + word1 + 0x85845dd1) 21 + c;
         a = rotateLeft32 (a + Md5_f4 b c d + word8 + 0x6fa87e4f) 6 + b;
         d = rotateLeft32 (d + Md5_f4 a b c + word15 + 0xfe2ce6e0) 10 + a;
         c = rotateLeft32 (c + Md5_f4 d a b + word6 + 0xa3014314) 15 + d;
         b = rotateLeft32 (b + Md5_f4 c d a + word13 + 0x4e0811a1) 21 + c;
         a = rotateLeft32 (a + Md5_f4 b c d + word4 + 0xf7537e82) 6 + b;
         d = rotateLeft32 (d + Md5_f4 a b c + word11 + 0xbd3af235) 10 + a;
         c = rotateLeft32 (c + Md5_f4 d a b + word2 + 0x2ad7d2bb) 15 + d;
         b = rotateLeft32 (b + Md5_f4 c d a + word9 + 0xeb86d391) 21 + c
     in [h ! 0 + a, h ! 1 + b, h ! 2 + c, h ! 3 + d])"

section \<open>The padding of Md5, Sha1 and Sha256\<close>

text \<open>\<^verbatim>\<open>*addLength++ = ...\<close>, once for each byte of \<open>bs\<close>, starting at index \<open>p\<close>.\<close>

fun write_bytes :: "byte list \<Rightarrow> nat \<Rightarrow> byte list \<Rightarrow> byte list" where
  "write_bytes buf p [] = buf"
| "write_bytes buf p (x # xs) = write_bytes (buf[p := x]) (p + 1) xs"

text \<open>
  \<^verbatim>\<open>processBuffer\<close> is the same function in the three classes, up to the order in which
  the bytes of \<^verbatim>\<open>msgBits\<close> are stored (\<open>length_bytes\<close>: the eight bytes in the order of the
  stores) and to \<^verbatim>\<open>processBlock\<close> (\<open>pb\<close>).  The local array \<^verbatim>\<open>extra\<close> is not initialised
  in the source; \<open>extra0\<close> is its content at entry.  Each of the two \<^verbatim>\<open>if\<close> statements
  of the source that store into \<^verbatim>\<open>m_buffer\<close> in one branch and into \<^verbatim>\<open>extra\<close> in the other
  is written once for either array.
\<close>

definition md_processBuffer_from ::
  "(u64 \<Rightarrow> byte list) \<Rightarrow> (u32 list \<Rightarrow> byte list \<Rightarrow> u32 list) \<Rightarrow> byte list \<Rightarrow> md_state \<Rightarrow> md_state"
where
  "md_processBuffer_from length_bytes pb extra0 s =
     (let paddedLength = m_bufferSize s * 8;
          paddedLength = paddedLength + 1;
          lower11Bits = paddedLength mod 512;
          paddedLength = (if lower11Bits \<le> 448 then paddedLength + (448 - lower11Bits)
                          else paddedLength + (512 + 448 - lower11Bits));
          paddedLength = paddedLength div 8;
          buffer = (if m_bufferSize s < 64 then (m_buffer s)[m_bufferSize s := 128] else m_buffer s);
          extra = (if m_bufferSize s < 64 then extra0 else extra0[0 := 128]);
          buffer = fold (\<lambda>i b. b[i := 0]) [m_bufferSize s + 1 ..< 64] buffer;
          extra = fold (\<lambda>i e. e[i - 64 := 0]) [max (m_bufferSize s + 1) 64 ..< paddedLength] extra;
          msgBits = 8 * (m_numBytes s + of_nat (m_bufferSize s));
          buffer = (if paddedLength < 64 then write_bytes buffer paddedLength (length_bytes msgBits)
                    else buffer);
          extra = (if paddedLength < 64 then extra
                   else write_bytes extra (paddedLength - 64) (length_bytes msgBits));
          hash = pb (m_hash s) (take 64 buffer);
          hash = (if 64 < paddedLength then pb hash (take 64 extra) else hash)
      in s\<lparr>m_buffer := buffer, m_hash := hash\<rparr>)"

definition md_processBuffer ::
  "(u64 \<Rightarrow> byte list) \<Rightarrow> (u32 list \<Rightarrow> byte list \<Rightarrow> u32 list) \<Rightarrow> md_state \<Rightarrow> md_state"
where
  "md_processBuffer length_bytes pb s = md_processBuffer_from length_bytes pb (replicate 64 0) s"

text \<open>Md5: \<^verbatim>\<open>*addLength++ = msgBits & 0xFF; msgBits >>= 8;\<close> eight times.\<close>

definition Md5_length_bytes :: "u64 \<Rightarrow> byte list" where
  "Md5_length_bytes msgBits =
     [ucast (msgBits AND 0xFF), ucast (drop_bit 8 msgBits AND 0xFF),
      ucast (drop_bit 16 msgBits AND 0xFF), ucast (drop_bit 24 msgBits AND 0xFF),
      ucast (drop_bit 32 msgBits AND 0xFF), ucast (drop_bit 40 msgBits AND 0xFF),
      ucast (drop_bit 48 msgBits AND 0xFF), ucast (drop_bit 56 msgBits AND 0xFF)]"

text \<open>Sha1 and Sha256: \<^verbatim>\<open>*addLength++ = static_cast<uint8_t>((msgBits >> 56) & 0xFF);\<close> down to shift 0.\<close>

definition Sha_length_bytes :: "u64 \<Rightarrow> byte list" where
  "Sha_length_bytes msgBits =
     [ucast (drop_bit 56 msgBits AND 0xFF), ucast (drop_bit 48 msgBits AND 0xFF),
      ucast (drop_bit 40 msgBits AND 0xFF), ucast (drop_bit 32 msgBits AND 0xFF),
      ucast (drop_bit 24 msgBits AND 0xFF), ucast (drop_bit 16 msgBits AND 0xFF),
      ucast (drop_bit 8 msgBits AND 0xFF), ucast (msgBits AND 0xFF)]"

definition Md5_hashCore :: "md_state \<Rightarrow> byte list \<Rightarrow> md_state" where
  "Md5_hashCore = block_hashCore 64 Md5_processBlock"

definition Md5_processBuffer :: "md_state \<Rightarrow> md_state" where
  "Md5_processBuffer = md_processBuffer Md5_length_bytes Md5_processBlock"

text \<open>
  \<^verbatim>\<open>Md5::hashFinal\<close> returns the first \<^verbatim>\<open>m_hashSize / 8\<close> bytes of the memory of \<^verbatim>\<open>m_hash\<close>
  and restores the registers saved at entry.  The result is the digest and the state left
  behind.
\<close>

definition Md5_hashFinal :: "md_state \<Rightarrow> byte list \<times> md_state" where
  "Md5_hashFinal s =
     (let oldHash = m_hash s;
          s1 = Md5_processBuffer s;
          v = take (Md5_hashSize div 8) (concat (map memory_bytes32 (m_hash s1)))
      in (v, s1\<lparr>m_hash := oldHash\<rparr>))"

section \<open>Sha1\<close>

definition Sha1_f1 :: "u32 \<Rightarrow> u32 \<Rightarrow> u32 \<Rightarrow> u32" where
  "Sha1_f1 b c d = d XOR (b AND (c XOR d))"

definition Sha1_f2 :: "u32 \<Rightarrow> u32 \<Rightarrow> u32 \<Rightarrow> u32" where
  "Sha1_f2 b c d = b XOR c XOR d"

definition Sha1_f3 :: "u32 \<Rightarrow> u32 \<Rightarrow> u32 \<Rightarrow> u32" where
  "Sha1_f3 b c d = (b AND c) OR (b AND d) OR (c AND d)"

definition Sha1_hashSize :: nat where
  "Sha1_hashSize = 8 * 20"

definition Sha1_initialize :: "md_state \<Rightarrow> md_state" where
  "Sha1_initialize s =
     s\<lparr>m_hashValue := [], m_numBytes := 0, m_bufferSize := 0,
       m_hash := [0x67452301, 0xefcdab89, 0x98badcfe, 0x10325476, 0xc3d2e1f0]\<rparr>"

text \<open>
  The message schedule: \<^verbatim>\<open>words[i] = endian::swap(input[i])\<close> for \<open>i < 16\<close>, then
  \<^verbatim>\<open>words[i] = rotateLeft(words[i-3] ^ words[i-8] ^ words[i-14] ^ words[i-16], 1)\<close> for
  \<open>16 \<le> i < 80\<close>.
\<close>

definition Sha1_words :: "byte list \<Rightarrow> u32 list" where
  "Sha1_words data =
     fold (\<lambda>i words. words @ [rotateLeft32 (words ! (i - 3) XOR words ! (i - 8) XOR
                                              words ! (i - 14) XOR words ! (i - 16)) 1])
       [16..<80] (map (\<lambda>i. swap32 (get32bits data (4 * i))) [0..<16])"

text \<open>
  The body of each of the four round loops, with the mix function \<open>f\<close> and the constant
  \<open>k\<close> of the round; \<open>i\<close> is the loop counter.
\<close>

definition Sha1_round_body ::
  "(u32 \<Rightarrow> u32 \<Rightarrow> u32 \<Rightarrow> u32) \<Rightarrow> u32 \<Rightarrow> u32 list \<Rightarrow> nat
     \<Rightarrow> u32 \<times> u32 \<times> u32 \<times> u32 \<times> u32 \<Rightarrow> u32 \<times> u32 \<times> u32 \<times> u32 \<times> u32"
where
  "Sha1_round_body f k words i r =
     (case r of (a, b, c, d, e) \<Rightarrow>
       (let offset = 5 * i;
            e = e + (rotateLeft32 a 5 + f b c d + words ! offset + k);       b = rotateLeft32 b 30;
            d = d + (rotateLeft32 e 5 + f a b c + words ! (offset + 1) + k); a = rotateLeft32 a 30;
            c = c + (rotateLeft32 d 5 + f e a b + words ! (offset + 2) + k); e = rotateLeft32 e 30;
            b = b + (rotateLeft32 c 5 + f d e a + words ! (offset + 3) + k); d = rotateLeft32 d 30;
            a = a + (rotateLeft32 b 5 + f c d e + words ! (offset + 4) + k); c = rotateLeft32 c 30
        in (a, b, c, d, e)))"

definition Sha1_processBlock :: "u32 list \<Rightarrow> byte list \<Rightarrow> u32 list" where
  "Sha1_processBlock h data =
     (let words = Sha1_words data;
          r = (h ! 0, h ! 1, h ! 2, h ! 3, h ! 4);
          r = fold (Sha1_round_body Sha1_f1 0x5a827999 words) [0..<4] r;
          r = fold (Sha1_round_body Sha1_f2 0x6ed9eba1 words) [4..<8] r;
          r = fold (Sha1_round_body Sha1_f3 0x8f1bbcdc words) [8..<12] r;
          r = fold (Sha1_round_body Sha1_f2 0xca62c1d6 words) [12..<16] r
      in case r of (a, b, c, d, e) \<Rightarrow> [h ! 0 + a, h ! 1 + b, h ! 2 + c, h ! 3 + d, h ! 4 + e])"

definition Sha1_hashCore :: "md_state \<Rightarrow> byte list \<Rightarrow> md_state" where
  "Sha1_hashCore = block_hashCore 64 Sha1_processBlock"

definition Sha1_processBuffer :: "md_state \<Rightarrow> md_state" where
  "Sha1_processBuffer = md_processBuffer Sha_length_bytes Sha1_processBlock"

text \<open>
  The output loop of \<^verbatim>\<open>Sha1::hashFinal\<close> and \<^verbatim>\<open>Sha256::hashFinal\<close>: for each of the
  \<open>n\<close> registers the four bytes \<^verbatim>\<open>(m_hash[i] >> 24) & 0xFF\<close>, \<^verbatim>\<open>(m_hash[i] >> 16) & 0xFF\<close>,
  \<^verbatim>\<open>(m_hash[i] >> 8) & 0xFF\<close>, \<^verbatim>\<open>m_hash[i] & 0xFF\<close>.
\<close>

definition sha_output :: "nat \<Rightarrow> u32 list \<Rightarrow> byte list" where
  "sha_output n h =
     concat (map (\<lambda>i. [ucast (drop_bit 24 (h ! i) AND 0xFF), ucast (drop_bit 16 (h ! i) AND 0xFF),
                         ucast (drop_bit 8 (h ! i) AND 0xFF), ucast (h ! i AND 0xFF)]) [0..<n])"

definition Sha1_hashFinal :: "md_state \<Rightarrow> byte list \<times> md_state" where
  "Sha1_hashFinal s =
     (let oldHash = m_hash s;
          s1 = Sha1_processBuffer s;
          v = sha_output 5 (m_hash s1)
      in (v, s1\<lparr>m_hash := oldHash\<rparr>))"

section \<open>Sha256\<close>

definition Sha256_f1 :: "u32 \<Rightarrow> u32 \<Rightarrow> u32 \<Rightarrow> u32" where
  "Sha256_f1 e f g =
     (let term1 = rotateRight32 e 6 XOR rotateRight32 e 11 XOR rotateRight32 e 25;
          term2 = (e AND f) XOR (NOT e AND g)
      in term1 + term2)"

definition Sha256_f2 :: "u32 \<Rightarrow> u32 \<Rightarrow> u32 \<Rightarrow> u32" where
  "Sha256_f2 a b c =
     (let term1 = rotateRight32 a 2 XOR rotateRight32 a 13 XOR rotateRight32 a 22;
          term2 = ((a OR b) AND c) OR (a AND b)
      in term1 + term2)"

definition Sha256_hashSize :: nat where
  "Sha256_hashSize = 8 * 32"

definition Sha256_initialize :: "md_state \<Rightarrow> md_state" where
  "Sha256_initialize s =
     s\<lparr>m_hashValue := [], m_numBytes := 0, m_bufferSize := 0,
       m_hash := [0x6a09e667, 0xbb67ae85, 0x3c6ef372, 0xa54ff53a,
                  0x510e527f, 0x9b05688c, 0x1f83d9ab, 0x5be0cd19]\<rparr>"

text \<open>
  The loops \<^verbatim>\<open>for (; i < hi; i++) words[i] = words[i-16] + (...) + words[i-7] + (...)\<close>
  that extend the message schedule, entered with \<open>i = lo\<close>.
\<close>

definition Sha256_extend :: "u32 list \<Rightarrow> nat \<Rightarrow> nat \<Rightarrow> u32 list" where
  "Sha256_extend words lo hi =
     fold (\<lambda>i words. words @
             [words ! (i - 16) +
              (rotateRight32 (words ! (i - 15)) 7 XOR rotateRight32 (words ! (i - 15)) 18 XOR
               drop_bit 3 (words ! (i - 15))) +
              words ! (i - 7) +
              (rotateRight32 (words ! (i - 2)) 17 XOR rotateRight32 (words ! (i - 2)) 19 XOR
               drop_bit 10 (words ! (i - 2)))])
       [lo..<hi] words"

definition Sha256_processBlock :: "u32 list \<Rightarrow> byte list \<Rightarrow> u32 list" where
  "Sha256_processBlock hash data =
    (let a = hash ! 0; b = hash ! 1; c = hash ! 2; d = hash ! 3;
         e = hash ! 4; f = hash ! 5; g = hash ! 6; h = hash ! 7;
         words = map (\<lambda>i. swap32 (get32bits data (4 * i))) [0..<16];
         x = h + Sha256_f1 e f g + 0x428a2f98 + words ! 0; y = Sha256_f2 a b c; d = d + x; h = x + y;
         x = g + Sha256_f1 d e f + 0x71374491 + words ! 1; y = Sha256_f2 h a b; c = c + x; g = x + y;
         x = f + Sha256_f1 c d e + 0xb5c0fbcf + words ! 2; y = Sha256_f2 g h a; b = b + x; f = x + y;
         x = e + Sha256_f1 b c d + 0xe9b5dba5 + words ! 3; y = Sha256_f2 f g h; a = a + x; e = x + y;
         x = d + Sha256_f1 a b c + 0x3956c25b + words ! 4; y = Sha256_f2 e f g; h = h + x; d = x + y;
         x = c + Sha256_f1 h a b + 0x59f111f1 + words ! 5; y = Sha256_f2 d e f; g = g + x; c = x + y;
         x = b + Sha256_f1 g h a + 0x923f82a4 + words ! 6; y = Sha256_f2 c d e; f = f + x; b = x + y;
         x = a + Sha256_f1 f g h + 0xab1c5ed5 + words ! 7; y = Sha256_f2 b c d; e = e + x; a = x + y;
         x = h + Sha256_f1 e f g + 0xd807aa98 + words ! 8; y = Sha256_f2 a b c; d = d + x; h = x + y;
         x = g + Sha256_f1 d e f + 0x12835b01 + words ! 9; y = Sha256_f2 h a b; c = c + x; g = x + y;
         x = f + Sha256_f1 c d e + 0x243185be + words ! 10; y = Sha256_f2 g h a; b = b + x; f = x + y;
         x = e + Sha256_f1 b c d + 0x550c7dc3 + words ! 11; y = Sha256_f2 f g h; a = a + x; e = x + y;
         x = d + Sha256_f1 a b c + 0x72be5d74 + words ! 12; y = Sha256_f2 e f g; h = h + x; d = x + y;
         x = c + Sha256_f1 h a b + 0x80deb1fe + words ! 13; y = Sha256_f2 d e f; g = g + x; c = x + y;
         x = b + Sha256_f1 g h a + 0x9bdc06a7 + words ! 14; y = Sha256_f2 c d e; f = f + x; b = x + y;
         x = a + Sha256_f1 f g h + 0xc19bf174 + words ! 15; y = Sha256_f2 b c d; e = e + x; a = x + y;
         words = Sha256_extend words 16 24;
         x = h + Sha256_f1 e f g + 0xe49b69c1 + words ! 16; y = Sha256_f2 a b c; d = d + x; h = x + y;
         x = g + Sha256_f1 d e f + 0xefbe4786 + words ! 17; y = Sha256_f2 h a b; c = c + x; g = x + y;
         x = f + Sha256_f1 c d e + 0x0fc19dc6 + words ! 18; y = Sha256_f2 g h a; b = b + x; f = x + y;
         x = e + Sha256_f1 b c d + 0x240ca1cc + words ! 19; y = Sha256_f2 f g h; a = a + x; e = x + y;
         x = d + Sha256_f1 a b c + 0x2de92c6f + words ! 20; y = Sha256_f2 e f g; h = h + x; d = x + y;
         x = c + Sha256_f1 h a b + 0x4a7484aa + words ! 21; y = Sha256_f2 d e f; g = g + x; c = x + y;
         x = b + Sha256_f1 g h a + 0x5cb0a9dc + words ! 22; y = Sha256_f2 c d e; f = f + x; b = x + y;
         x = a + Sha256_f1 f g h + 0x76f988da + words ! 23; y = Sha256_f2 b c d; e = e + x; a = x + y;
         words = Sha256_extend words 24 32;
         x = h + Sha256_f1 e f g + 0x983e5152 + words ! 24; y = Sha256_f2 a b c; d = d + x; h = x + y;
         x = g + Sha256_f1 d e f + 0xa831c66d + words ! 25; y = Sha256_f2 h a b; c = c + x; g = x + y;
         x = f + Sha256_f1 c d e + 0xb00327c8 + words ! 26; y = Sha256_f2 g h a; b = b + x; f = x + y;
         x = e + Sha256_f1 b c d + 0xbf597fc7 + words ! 27; y = Sha256_f2 f g h; a = a + x; e = x + y;
         x = d + Sha256_f1 a b c + 0xc6e00bf3 + words ! 28; y = Sha256_f2 e f g; h = h + x; d = x + y;
         x = c + Sha256_f1 h a b + 0xd5a79147 + words ! 29; y = Sha256_f2 d e f; g = g + x; c = x + y;
         x = b + Sha256_f1 g h a + 0x06ca6351 + words ! 30; y = Sha256_f2 c d e; f = f + x; b = x + y;
         x = a + Sha256_f1 f g h + 0x14292967 + words ! 31; y = Sha256_f2 b c d; e = e + x; a = x + y;
         words = Sha256_extend words 32 40;
         x = h + Sha256_f1 e f g + 0x27b70a85 + words ! 32; y = Sha256_f2 a b c; d = d + x; h = x + y;
         x = g + Sha256_f1 d e f + 0x2e1b2138 + words ! 33; y = Sha256_f2 h a b; c = c + x; g = x + y;
         x = f + Sha256_f1 c d e + 0x4d2c6dfc + words ! 34; y = Sha256_f2 g h a; b = b + x; f = x + y;
         x = e + Sha256_f1 b c d + 0x53380d13 + words ! 35; y = Sha256_f2 f g h; a = a + x; e = x + y;
         x = d + Sha256_f1 a b c + 0x650a7354 + words ! 36; y = Sha256_f2 e f g; h = h + x; d = x + y;
         x = c + Sha256_f1 h a b + 0x766a0abb + words ! 37; y = Sha256_f2 d e f; g = g + x; c = x + y;
         x = b + Sha256_f1 g h a + 0x81c2c92e + words ! 38; y = Sha256_f2 c d e; f = f + x; b = x + y;
         x = a + Sha256_f1 f g h + 0x92722c85 + words ! 39; y = Sha256_f2 b c d; e = e + x; a = x + y;
         words = Sha256_extend words 40 48;
         x = h + Sha256_f1 e f g + 0xa2bfe8a1 + words ! 40; y = Sha256_f2 a b c; d = d + x; h = x + y;
         x = g + Sha256_f1 d e f + 0xa81a664b + words ! 41; y = Sha256_f2 h a b; c = c + x; g = x + y;
         x = f + Sha256_f1 c d e + 0xc24b8b70 + words ! 42; y = Sha256_f2 g h a; b = b + x; f = x + y;
         x = e + Sha256_f1 b c d + 0xc76c51a3 + words ! 43; y = Sha256_f2 f g h; a = a + x; e = x + y;
         x = d + Sha256_f1 a b c + 0xd192e819 + words ! 44; y = Sha256_f2 e f g; h = h + x; d = x + y;
         x = c + Sha256_f1 h a b + 0xd6990624 + words ! 45; y = Sha256_f2 d e f; g = g + x; c = x + y;
         x = b + Sha256_f1 g h a + 0xf40e3585 + words ! 46; y = Sha256_f2 c d e; f = f + x; b = x + y;
         x = a + Sha256_f1 f g h + 0x106aa070 + words ! 47; y = Sha256_f2 b c d; e = e + x; a = x + y;
         words = Sha256_extend words 48 56;
         x = h + Sha256_f1 e f g + 0x19a4c116 + words ! 48; y = Sha256_f2 a b c; d = d + x; h = x + y;
         x = g + Sha256_f1 d e f + 0x1e376c08 + words ! 49; y = Sha256_f2 h a b; c = c + x; g = x + y;
         x = f + Sha256_f1 c d e + 0x2748774c + words ! 50; y = Sha256_f2 g h a; b = b + x; f = x + y;
         x = e + Sha256_f1 b c d + 0x34b0bcb5 + words ! 51; y = Sha256_f2 f g h; a = a + x; e = x + y;
         x = d + Sha256_f1 a b c + 0x391c0cb3 + words ! 52; y = Sha256_f2 e f g; h = h + x; d = x + y;
         x = c + Sha256_f1 h a b + 0x4ed8aa4a + words ! 53; y = Sha256_f2 d e f; g = g + x; c = x + y;
         x = b + Sha256_f1 g h a + 0x5b9cca4f + words ! 54; y = Sha256_f2 c d e; f = f + x; b = x + y;
         x = a + Sha256_f1 f g h + 0x682e6ff3 + words ! 55; y = Sha256_f2 b c d; e = e + x; a = x + y;
         words = Sha256_extend words 56 64;
         x = h + Sha256_f1 e f g + 0x748f82ee + words ! 56; y = Sha256_f2 a b c; d = d + x; h = x + y;
         x = g + Sha256_f1 d e f + 0x78a5636f + words ! 57; y = Sha256_f2 h a b; c = c + x; g = x + y;
         x = f + Sha256_f1 c d e + 0x84c87814 + words ! 58; y = Sha256_f2 g h a; b = b + x; f = x + y;
         x = e + Sha256_f1 b c d + 0x8cc70208 + words ! 59; y = Sha256_f2 f g h; a = a + x; e = x + y;
         x = d + Sha256_f1 a b c + 0x90befffa + words ! 60; y = Sha256_f2 e f g; h = h + x; d = x + y;
         x = c + Sha256_f1 h a b + 0xa4506ceb + words ! 61; y = Sha256_f2 d e f; g = g + x; c = x + y;
         x = b + Sha256_f1 g h a + 0xbef9a3f7 + words ! 62; y = Sha256_f2 c d e; f = f + x; b = x + y;
         x = a + Sha256_f1 f g h + 0xc67178f2 + words ! 63; y = Sha256_f2 b c d; e = e + x; a = x + y
     in [hash ! 0 + a, hash ! 1 + b, hash ! 2 + c, hash ! 3 + d,
         hash ! 4 + e, hash ! 5 + f, hash ! 6 + g, hash ! 7 + h])"

definition Sha256_hashCore :: "md_state \<Rightarrow> byte list \<Rightarrow> md_state" where
  "Sha256_hashCore = block_hashCore 64 Sha256_processBlock"

definition Sha256_processBuffer :: "md_state \<Rightarrow> md_state" where
  "Sha256_processBuffer = md_processBuffer Sha_length_bytes Sha256_processBlock"

definition Sha256_hashFinal :: "md_state \<Rightarrow> byte list \<times> md_state" where
  "Sha256_hashFinal s =
     (let oldHash = m_hash s;
          s1 = Sha256_processBuffer s;
          v = sha_output 8 (m_hash s1)
      in (v, s1\<lparr>m_hash := oldHash\<rparr>))"

text \<open>
  The constructors \<^verbatim>\<open>Md5()\<close>, \<^verbatim>\<open>Sha1()\<close> and \<^verbatim>\<open>Sha256()\<close> call \<^verbatim>\<open>initialize\<close>.  The
  arrays \<^verbatim>\<open>m_buffer\<close> (64 bytes) and \<^verbatim>\<open>m_hash\<close> have their declared sizes; what they hold
  before \<^verbatim>\<open>initialize\<close> is of no consequence and is taken to be zero.
\<close>

definition Md5 :: md_state where
  "Md5 = Md5_initialize \<lparr>m_hashValue = [], m_numBytes = 0, m_bufferSize = 0,
                          m_buffer = replicate 64 0, m_hash = replicate 4 0\<rparr>"

definition Sha1 :: md_state where
  "Sha1 = Sha1_initialize \<lparr>m_hashValue = [], m_numBytes = 0, m_bufferSize = 0,
                            m_buffer = replicate 64 0, m_hash = replicate 5 0\<rparr>"

definition Sha256 :: md_state where
  "Sha256 = Sha256_initialize \<lparr>m_hashValue = [], m_numBytes = 0, m_bufferSize = 0,
                                m_buffer = replicate 64 0, m_hash = replicate 8 0\<rparr>"

section \<open>Sha3\<close>

datatype Sha3Bits = Bits224 | Bits256 | Bits384 | Bits512

text \<open>
  Modelled from the spec: \<^verbatim>\<open>common::enumToIntegral\<close> (\<^verbatim>\<open>keeg/common/enums.hpp\<close>) is not
  among the sources; it returns the value of the enumerator, here the digest width in bits.
\<close>

fun enumToIntegral :: "Sha3Bits \<Rightarrow> nat" where
  "enumToIntegral Bits224 = 224"
| "enumToIntegral Bits256 = 256"
| "enumToIntegral Bits384 = 384"
| "enumToIntegral Bits512 = 512"

record sha3_state = "u64 block_state" +
  m_blockSize :: nat
  m_bits :: Sha3Bits

definition XorMasks :: "u64 list" where
  "XorMasks =
     [0x0000000000000001, 0x0000000000008082, 0x800000000000808a,
      0x8000000080008000, 0x000000000000808b, 0x0000000080000001,
      0x8000000080008081, 0x8000000000008009, 0x000000000000008a,
      0x0000000000000088, 0x0000000080008009, 0x000000008000000a,
      0x000000008000808b, 0x800000000000008b, 0x8000000000008089,
      0x8000000000008003, 0x8000000000008002, 0x8000000000000080,
      0x000000000000800a, 0x800000008000000a, 0x8000000080008081,
      0x8000000000008080, 0x0000000080000001, 0x8000000080008008]"

definition mod5 :: "nat \<Rightarrow> nat" where
  "mod5 x = (if x < 5 then x else x - 5)"

definition Sha3_hashSize :: "sha3_state \<Rightarrow> nat" where
  "Sha3_hashSize s = enumToIntegral (m_bits s)"

definition Sha3_initialize :: "sha3_state \<Rightarrow> sha3_state" where
  "Sha3_initialize s =
     s\<lparr>m_hash := fold (\<lambda>i h. h[i := 0]) [0..<25] (m_hash s),
       m_hashValue := [], m_numBytes := 0, m_bufferSize := 0\<rparr>"

text \<open>
  The constructor \<^verbatim>\<open>Sha3(bits)\<close>.  The arrays \<^verbatim>\<open>m_hash\<close> (25 lanes) and \<^verbatim>\<open>m_buffer\<close>
  (\<^verbatim>\<open>MaxBlockSize\<close> = 144 bytes) have their declared sizes.
\<close>

definition Sha3 :: "Sha3Bits \<Rightarrow> sha3_state" where
  "Sha3 bits =
     Sha3_initialize
       \<lparr>m_hashValue = [], m_numBytes = 0, m_bufferSize = 0, m_buffer = replicate 144 0,
        m_hash = replicate 25 0, m_blockSize = 200 - 2 * (enumToIntegral bits div 8), m_bits = bits\<rparr>"

text \<open>The four steps of a round of \<^verbatim>\<open>Sha3::processBlock\<close>, on the 25 lanes \<open>h\<close>.\<close>

definition Sha3_theta :: "u64 list \<Rightarrow> u64 list" where
  "Sha3_theta h =
     (let coefficients = map (\<lambda>i. h ! i XOR h ! (i + 5) XOR h ! (i + 10) XOR h ! (i + 15) XOR h ! (i + 20)) [0..<5]
      in fold (\<lambda>i h.
           (let one = coefficients ! mod5 (i + 4) XOR rotateLeft64 (coefficients ! mod5 (i + 1)) 1;
                h = h[i := h ! i XOR one];
                h = h[i + 5 := h ! (i + 5) XOR one];
                h = h[i + 10 := h ! (i + 10) XOR one];
                h = h[i + 15 := h ! (i + 15) XOR one];
                h = h[i + 20 := h ! (i + 20) XOR one]
            in h)) [0..<5] h)"

text \<open>
  Rho and Pi: each line \<^verbatim>\<open>one = m_hash[j]; m_hash[j] = rotateLeft(last, r); last = one;\<close>
  is one pair \<open>(j, r)\<close> of the list, in the order of the source; the chain starts with
  \<^verbatim>\<open>last = m_hash[1]\<close> (\<open>last'\<close> below) and ends with \<^verbatim>\<open>m_hash[1] = rotateLeft(last, 44)\<close>.
\<close>

definition Sha3_rho_pi :: "u64 list \<Rightarrow> u64 list" where
  "Sha3_rho_pi h =
     (case fold (\<lambda>(j, r) (h, last'). (h[j := rotateLeft64 last' r], h ! j))
             [(10, 1), (7, 3), (11, 6), (17, 10), (18, 15), (3, 21), (5, 28), (16, 36),
              (8, 45), (21, 55), (24, 2), (4, 14), (15, 27), (23, 41), (19, 56), (13, 8),
              (12, 25), (2, 43), (20, 62), (14, 18), (22, 39), (9, 61), (6, 20)]
             (h, h ! 1)
      of (h, last') \<Rightarrow> h[1 := rotateLeft64 last' 44])"

definition Sha3_chi :: "u64 list \<Rightarrow> u64 list" where
  "Sha3_chi h =
     fold (\<lambda>j h.
       (let one = h ! j;
            two = h ! (j + 1);
            h = h[j := h ! j XOR (h ! (j + 2) AND NOT two)];
            h = h[j + 1 := h ! (j + 1) XOR (h ! (j + 3) AND NOT (h ! (j + 2)))];
            h = h[j + 2 := h ! (j + 2) XOR (h ! (j + 4) AND NOT (h ! (j + 3)))];
            h = h[j + 3 := h ! (j + 3) XOR (one AND NOT (h ! (j + 4)))];
            h = h[j + 4 := h ! (j + 4) XOR (two AND NOT one)]
        in h)) [0, 5, 10, 15, 20] h"

definition Sha3_iota :: "nat \<Rightarrow> u64 list \<Rightarrow> u64 list" where
  "Sha3_iota round h = h[0 := h ! 0 XOR XorMasks ! round]"

definition Sha3_round :: "nat \<Rightarrow> u64 list \<Rightarrow> u64 list" where
  "Sha3_round round h = Sha3_iota round (Sha3_chi (Sha3_rho_pi (Sha3_theta h)))"

text \<open>
  \<^verbatim>\<open>Sha3::processBlock\<close>: \<open>blockSize\<close> is \<^verbatim>\<open>m_blockSize\<close>, \<open>h\<close> is \<^verbatim>\<open>m_hash\<close>, \<open>data\<close> the
  block; \<^verbatim>\<open>LITTLEENDIAN(data64[i])\<close> is the 64-bit read at byte offset \<open>8 * i\<close>.
\<close>

definition Sha3_processBlock :: "nat \<Rightarrow> u64 list \<Rightarrow> byte list \<Rightarrow> u64 list" where
  "Sha3_processBlock blockSize h data =
     fold Sha3_round [0..<24]
       (fold (\<lambda>i h. h[i := h ! i XOR get64bits data (8 * i)]) [0..<blockSize div 8] h)"

definition Sha3_hashCore :: "sha3_state \<Rightarrow> byte list \<Rightarrow> sha3_state" where
  "Sha3_hashCore s data = block_hashCore (m_blockSize s) (Sha3_processBlock (m_blockSize s)) s data"

text \<open>
  \<^verbatim>\<open>Sha3::processBuffer\<close>: the byte \<^verbatim>\<open>0x06\<close> at the fill level, zeros up to the block size,
  \<^verbatim>\<open>0x80\<close> or-ed into the byte before the final offset, and one \<^verbatim>\<open>processBlock\<close>.
\<close>

definition Sha3_processBuffer :: "sha3_state \<Rightarrow> sha3_state" where
  "Sha3_processBuffer s =
     (let offset = m_bufferSize s;
          buffer = (m_buffer s)[offset := 0x06];
          offset = offset + 1;
          buffer = fold (\<lambda>i b. b[i := 0]) [offset ..< m_blockSize s] buffer;
          offset = max offset (m_blockSize s);
          buffer = buffer[offset - 1 := buffer ! (offset - 1) OR 0x80]
      in s\<lparr>m_buffer := buffer,
           m_hash := Sha3_processBlock (m_blockSize s) (m_hash s) (take (m_blockSize s) buffer)\<rparr>)"

text \<open>
  \<^verbatim>\<open>Sha3::hashFinal\<close> returns the first \<^verbatim>\<open>hashSize() / 8\<close> bytes of the memory of
  \<^verbatim>\<open>m_hash\<close>; it does not save or restore the lanes.
\<close>

definition Sha3_hashFinal :: "sha3_state \<Rightarrow> byte list \<times> sha3_state" where
  "Sha3_hashFinal s =
     (let s1 = Sha3_processBuffer s;
          v = take (Sha3_hashSize s1 div 8) (concat (map memory_bytes64 (m_hash s1)))
      in (v, s1))"

section \<open>XxHash32 and XxHash64\<close>

text \<open>
  The two classes declare the same members, with 32-bit and 64-bit lanes: the four lanes
  \<^verbatim>\<open>m_state\<close>, the buffer \<^verbatim>\<open>m_buffer\<close> with its fill level \<^verbatim>\<open>m_bufferSize\<close> (the fields
  \<open>m_buffer_xx\<close> and \<open>m_bufferSize_xx\<close>), \<^verbatim>\<open>m_totalLength\<close> and \<^verbatim>\<open>m_seed\<close>.
\<close>

record 'w xxhash_state = hash_algorithm +
  m_state :: "'w list"
  m_buffer_xx :: "byte list"
  m_bufferSize_xx :: nat
  m_totalLength :: u64
  m_seed :: "'w"

text \<open>\<^verbatim>\<open>while (length-- > 0) m_buffer[m_bufferSize++] = *current++;\<close>\<close>

fun xx_append :: "'w xxhash_state \<Rightarrow> byte list \<Rightarrow> 'w xxhash_state" where
  "xx_append s [] = s"
| "xx_append s (x # xs) =
     xx_append (s\<lparr>m_buffer_xx := (m_buffer_xx s)[m_bufferSize_xx s := x],
                   m_bufferSize_xx := m_bufferSize_xx s + 1\<rparr>) xs"

text \<open>
  \<^verbatim>\<open>while (m_bufferSize < MaxBufferSize) m_buffer[m_bufferSize++] = *current++;\<close>  The loop
  does not test the input length: it runs in the branch where the buffered and the new
  bytes together fill the buffer.  On an exhausted input the function stops.
\<close>

fun xx_fill :: "nat \<Rightarrow> 'w xxhash_state \<Rightarrow> byte list \<Rightarrow> 'w xxhash_state \<times> byte list" where
  "xx_fill MaxBufferSize s [] = (s, [])"
| "xx_fill MaxBufferSize s (x # xs) =
     (if m_bufferSize_xx s < MaxBufferSize
      then xx_fill MaxBufferSize
             (s\<lparr>m_buffer_xx := (m_buffer_xx s)[m_bufferSize_xx s := x],
                m_bufferSize_xx := m_bufferSize_xx s + 1\<rparr>) xs
      else (s, x # xs))"

text \<open>
  \<^verbatim>\<open>while (current <= stopBlock) { process(current, s0, s1, s2, s3); current += MaxBufferSize; }\<close>
  with \<^verbatim>\<open>stopBlock = stop - MaxBufferSize\<close>: the loop runs while a whole block is left.
  \<open>process\<close> maps the four lanes and the block to the new lanes.
\<close>

function xx_process_blocks ::
  "nat \<Rightarrow> ('w list \<Rightarrow> byte list \<Rightarrow> 'w list) \<Rightarrow> 'w list \<Rightarrow> byte list
     \<Rightarrow> 'w list \<times> byte list"
where
  "xx_process_blocks MaxBufferSize process state current =
     (if 0 < MaxBufferSize \<and> MaxBufferSize \<le> length current
      then xx_process_blocks MaxBufferSize process
             (process state (take MaxBufferSize current)) (drop MaxBufferSize current)
      else (state, current))"
  by pat_completeness auto
termination
  by (relation "measure (\<lambda>(B, p, st, current). length current)") auto

declare xx_process_blocks.simps [simp del]

text \<open>
  \<^verbatim>\<open>XxHash32::hashCore\<close> and \<^verbatim>\<open>XxHash64::hashCore\<close> have the same body, up to
  \<^verbatim>\<open>MaxBufferSize\<close> (16 and 32) and \<^verbatim>\<open>process\<close>.
\<close>

definition xx_hashCore ::
  "nat \<Rightarrow> ('w list \<Rightarrow> byte list \<Rightarrow> 'w list) \<Rightarrow> 'w xxhash_state \<Rightarrow> byte list
     \<Rightarrow> 'w xxhash_state"
where
  "xx_hashCore MaxBufferSize process s data =
     (let s = s\<lparr>m_totalLength := m_totalLength s + of_nat (length data)\<rparr>
      in if m_bufferSize_xx s + length data < MaxBufferSize
         then xx_append s data
         else (let (s, current) =
                     (if 0 < m_bufferSize_xx s
                      then (case xx_fill MaxBufferSize s data of
                              (s, current) \<Rightarrow>
                                (s\<lparr>m_state := process (m_state s) (take MaxBufferSize (m_buffer_xx s))\<rparr>,
                                 current))
                      else (s, data));
                   (state, current) = xx_process_blocks MaxBufferSize process (m_state s) current
               in s\<lparr>m_state := state,
                    m_bufferSize_xx := length current,
                    m_buffer_xx := current @ drop (length current) (m_buffer_xx s)\<rparr>))"

subsection \<open>XxHash32\<close>

definition Prime1_32 :: u32 where "Prime1_32 = 2654435761"
definition Prime2_32 :: u32 where "Prime2_32 = 2246822519"
definition Prime3_32 :: u32 where "Prime3_32 = 3266489917"
definition Prime4_32 :: u32 where "Prime4_32 = 668265263"
definition Prime5_32 :: u32 where "Prime5_32 = 374761393"


definition XxHash32_initialize :: "u32 xxhash_state \<Rightarrow> u32 xxhash_state" where
  "XxHash32_initialize s =
     s\<lparr>m_state := [m_seed s + Prime1_32 + Prime2_32, m_seed s + Prime2_32, m_seed s,
                   m_seed s - Prime1_32],
       m_bufferSize_xx := 0, m_totalLength := 0, m_hashValue := [],
       m_buffer_xx := map (\<lambda>_. 0) (m_buffer_xx s)\<rparr>"

definition XxHash32 :: "u32 \<Rightarrow> u32 xxhash_state" where
  "XxHash32 seed =
     XxHash32_initialize
       \<lparr>m_hashValue = [], m_state = replicate 4 0, m_buffer_xx = replicate 16 0,
        m_bufferSize_xx = 0, m_totalLength = 0, m_seed = seed\<rparr>"

definition XxHash32_process :: "u32 list \<Rightarrow> byte list \<Rightarrow> u32 list" where
  "XxHash32_process state data =
     [rotateLeft32 (state ! 0 + get32bits data 0 * Prime2_32) 13 * Prime1_32,
      rotateLeft32 (state ! 1 + get32bits data 4 * Prime2_32) 13 * Prime1_32,
      rotateLeft32 (state ! 2 + get32bits data 8 * Prime2_32) 13 * Prime1_32,
      rotateLeft32 (state ! 3 + get32bits data 12 * Prime2_32) 13 * Prime1_32]"

definition XxHash32_hashCore :: "u32 xxhash_state \<Rightarrow> byte list \<Rightarrow> u32 xxhash_state" where
  "XxHash32_hashCore = xx_hashCore 16 XxHash32_process"

text \<open>
  \<^verbatim>\<open>for (; data + 4 <= stop; data += 4) result = rotateLeft(result + GET32BITS(data) * Prime3, 17) * Prime4;\<close>
  The result is the value and the bytes that are left.
\<close>

function XxHash32_eat4 :: "u32 \<Rightarrow> byte list \<Rightarrow> u32 \<times> byte list" where
  "XxHash32_eat4 result data =
     (if 4 \<le> length data
      then XxHash32_eat4 (rotateLeft32 (result + get32bits data 0 * Prime3_32) 17 * Prime4_32) (drop 4 data)
      else (result, data))"
  by pat_completeness auto
termination
  by (relation "measure (\<lambda>(r, data). length data)") auto

declare XxHash32_eat4.simps [simp del]

definition XxHash32_hashFinal :: "u32 xxhash_state \<Rightarrow> byte list \<times> u32 xxhash_state" where
  "XxHash32_hashFinal s =
     (let result = ucast (m_totalLength s);
          result = (if 16 \<le> m_totalLength s
                    then result + (rotateLeft32 (m_state s ! 0) 1 + rotateLeft32 (m_state s ! 1) 7 +
                                   rotateLeft32 (m_state s ! 2) 12 + rotateLeft32 (m_state s ! 3) 18)
                    else result + (m_state s ! 2 + Prime5_32));
          data = take (m_bufferSize_xx s) (m_buffer_xx s);
          (result, data) = XxHash32_eat4 result data;
          result = fold (\<lambda>b result. rotateLeft32 (result + ucast b * Prime5_32) 11 * Prime1_32) data result;
          result = result XOR drop_bit 15 result;
          result = result * Prime2_32;
          result = result XOR drop_bit 13 result;
          result = result * Prime3_32;
          result = result XOR drop_bit 16 result;
          result = native_to_big32 result
      in (memory_bytes32 result, s))"

subsection \<open>XxHash64\<close>

definition Prime1_64 :: u64 where "Prime1_64 = 11400714785074694791"
definition Prime2_64 :: u64 where "Prime2_64 = 14029467366897019727"
definition Prime3_64 :: u64 where "Prime3_64 = 1609587929392839161"
definition Prime4_64 :: u64 where "Prime4_64 = 9650029242287828579"
definition Prime5_64 :: u64 where "Prime5_64 = 2870177450012600261"

text \<open>\<^verbatim>\<open>static const std::size_t m_hashSize = std::numeric_limits<uint32_t>::digits;\<close>\<close>

definition XxHash64_hashSize :: nat where
  "XxHash64_hashSize = 32"

definition XxHash64_initialize :: "u64 xxhash_state \<Rightarrow> u64 xxhash_state" where
  "XxHash64_initialize s =
     s\<lparr>m_state := [m_seed s + Prime1_64 + Prime2_64, m_seed s + Prime2_64, m_seed s,
                   m_seed s - Prime1_64],
       m_bufferSize_xx := 0, m_totalLength := 0, m_hashValue := [],
       m_buffer_xx := map (\<lambda>_. 0) (m_buffer_xx s)\<rparr>"

definition XxHash64 :: "u64 \<Rightarrow> u64 xxhash_state" where
  "XxHash64 seed =
     XxHash64_initialize
       \<lparr>m_hashValue = [], m_state = replicate 4 0, m_buffer_xx = replicate 32 0,
        m_bufferSize_xx = 0, m_totalLength = 0, m_seed = seed\<rparr>"

definition processSingle :: "u64 \<Rightarrow> u64 \<Rightarrow> u64" where
  "processSingle previous input = rotateLeft64 (previous + input * Prime2_64) 31 * Prime1_64"

definition XxHash64_process :: "u64 list \<Rightarrow> byte list \<Rightarrow> u64 list" where
  "XxHash64_process state data =
     [processSingle (state ! 0) (get64bits data 0),
      processSingle (state ! 1) (get64bits data 8),
      processSingle (state ! 2) (get64bits data 16),
      processSingle (state ! 3) (get64bits data 24)]"

definition XxHash64_hashCore :: "u64 xxhash_state \<Rightarrow> byte list \<Rightarrow> u64 xxhash_state" where
  "XxHash64_hashCore = xx_hashCore 32 XxHash64_process"

text \<open>
  \<^verbatim>\<open>for (; data + 8 <= stop; data += 8)
  result = rotateLeft(result ^ processSingle(0, GET64BITS(data)), 27) * Prime1 + Prime4;\<close>
\<close>

function XxHash64_eat8 :: "u64 \<Rightarrow> byte list \<Rightarrow> u64 \<times> byte list" where
  "XxHash64_eat8 result data =
     (if 8 \<le> length data
      then XxHash64_eat8
             (rotateLeft64 (result XOR processSingle 0 (get64bits data 0)) 27 * Prime1_64 + Prime4_64)
             (drop 8 data)
      else (result, data))"
  by pat_completeness auto
termination
  by (relation "measure (\<lambda>(r, data). length data)") auto

declare XxHash64_eat8.simps [simp del]

definition XxHash64_hashFinal :: "u64 xxhash_state \<Rightarrow> byte list \<times> u64 xxhash_state" where
  "XxHash64_hashFinal s =
     (let result =
            (if 32 \<le> m_totalLength s
             then (let result = rotateLeft64 (m_state s ! 0) 1 + rotateLeft64 (m_state s ! 1) 7 +
                                rotateLeft64 (m_state s ! 2) 12 + rotateLeft64 (m_state s ! 3) 18;
                       result = (result XOR processSingle 0 (m_state s ! 0)) * Prime1_64 + Prime4_64;
                       result = (result XOR processSingle 0 (m_state s ! 1)) * Prime1_64 + Prime4_64;
                       result = (result XOR processSingle 0 (m_state s ! 2)) * Prime1_64 + Prime4_64;
                       result = (result XOR processSingle 0 (m_state s ! 3)) * Prime1_64 + Prime4_64
                   in result)
             else m_state s ! 2 + Prime5_64);
          result = result + m_totalLength s;
          data = take (m_bufferSize_xx s) (m_buffer_xx s);
          (result, data) = XxHash64_eat8 result data;
          (result, data) =
            (if 4 \<le> length data
             then (rotateLeft64 (result XOR ucast (get32bits data 0) * Prime1_64) 23 * Prime2_64 + Prime3_64,
                   drop 4 data)
             else (result, data));
          result = fold (\<lambda>b result. rotateLeft64 (result XOR ucast b * Prime5_64) 11 * Prime1_64) data result;
          result = result XOR drop_bit 33 result;
          result = result * Prime2_64;
          result = result XOR drop_bit 29 result;
          result = result * Prime3_64;
          result = result XOR drop_bit 32 result;
          result = native_to_big64 result
      in (memory_bytes64 result, s))"

section \<open>Crc32 and Crc64\<close>

text \<open>
  The two classes declare the same members, with 32-bit and 64-bit values:
  \<^verbatim>\<open>m_polynomial\<close>, \<^verbatim>\<open>m_seed\<close>, \<^verbatim>\<open>m_hash\<close> (the fields \<open>m_seed_crc\<close> and \<open>m_hash_crc\<close>) and
  the table \<^verbatim>\<open>m_lookupTable\<close> of \<^verbatim>\<open>MaxSlice\<close> = 16 rows of 256 entries.
\<close>

record 'w crc_state = hash_algorithm +
  m_polynomial :: "'w"
  m_seed_crc :: "'w"
  m_hash_crc :: "'w"
  m_lookupTable :: "'w list list"

text \<open>
  \<^verbatim>\<open>initializeTable\<close> is the same function in the two classes.  The inner loop of its
  first part, \<^verbatim>\<open>for (j = 0; j < 8; ++j) entry = (entry >> 1) ^ ((entry & 1) * m_polynomial);\<close>
\<close>

definition table_entry :: "'a::len word \<Rightarrow> 'a word \<Rightarrow> 'a word" where
  "table_entry polynomial i =
     fold (\<lambda>j entry. drop_bit 1 entry XOR (entry AND 1) * polynomial) [0..<8] i"

definition crc_initializeTable :: "'a::len word \<Rightarrow> 'a word list list \<Rightarrow> 'a word list list" where
  "crc_initializeTable polynomial table =
     (let table = fold (\<lambda>i t. t[0 := (t ! 0)[i := table_entry polynomial (of_nat i)]]) [0..<256] table
      in fold (\<lambda>i t.
           fold (\<lambda>slice t.
             t[slice := (t ! slice)[i := drop_bit 8 (t ! (slice - 1) ! i) XOR
                                           t ! 0 ! unat (t ! (slice - 1) ! i AND 0xFF)]])
             [1..<16] t)
           [0..<256] table)"

definition crc_initialize :: "'a::len word crc_state \<Rightarrow> 'a word crc_state" where
  "crc_initialize s = s\<lparr>m_hash_crc := m_seed_crc s, m_hashValue := []\<rparr>"

text \<open>The constructors \<^verbatim>\<open>Crc32(polynomial, seed)\<close> and \<^verbatim>\<open>Crc64(polynomial, seed)\<close>.\<close>

definition crc_construct :: "'a::len word \<Rightarrow> 'a word \<Rightarrow> 'a word crc_state" where
  "crc_construct polynomial seed =
     (let s = crc_initialize
                \<lparr>m_hashValue = [], m_polynomial = polynomial, m_seed_crc = seed, m_hash_crc = 0,
                 m_lookupTable = replicate 16 (replicate 256 0)\<rparr>
      in s\<lparr>m_lookupTable := crc_initializeTable (m_polynomial s) (m_lookupTable s)\<rparr>)"

definition Crc32 :: "u32 \<Rightarrow> u32 \<Rightarrow> u32 crc_state" where
  "Crc32 polynomial seed = crc_construct polynomial seed"

definition Crc64 :: "u64 \<Rightarrow> u64 \<Rightarrow> u64 crc_state" where
  "Crc64 polynomial seed = crc_construct polynomial seed"

definition Crc32_hashSize :: nat where
  "Crc32_hashSize = 32"

definition Crc64_hashSize :: nat where
  "Crc64_hashSize = 64"

text \<open>
  The last loop of \<^verbatim>\<open>hashCore\<close>, the same in the two classes:
  \<^verbatim>\<open>while (numBytes-- != 0) crc = (crc >> 8) ^ m_lookupTable[0][(crc & 0xFF) ^ *currentByte++];\<close>
\<close>

definition crc_byte :: "'a::len word list list \<Rightarrow> byte \<Rightarrow> 'a word \<Rightarrow> 'a word" where
  "crc_byte table b crc = drop_bit 8 crc XOR table ! 0 ! unat ((crc AND 0xFF) XOR ucast b)"

definition crc_bytes :: "'a::len word list list \<Rightarrow> 'a word \<Rightarrow> byte list \<Rightarrow> 'a word" where
  "crc_bytes table crc data = fold (crc_byte table) data crc"

subsection \<open>Crc32\<close>

text \<open>
  The body of the inner loop of \<^verbatim>\<open>Crc32::hashCore\<close> (little-endian branch); \<open>data\<close> are
  the bytes at \<^verbatim>\<open>current\<close>, of which the body reads four 32-bit integers.
\<close>

definition Crc32_sixteen :: "u32 list list \<Rightarrow> u32 \<Rightarrow> byte list \<Rightarrow> u32" where
  "Crc32_sixteen table crc data =
     (let one = get32bits data 0 XOR crc;
          two = get32bits data 4;
          three = get32bits data 8;
          four = get32bits data 12
      in table ! 0 ! unat (drop_bit 24 four AND 0xFF) XOR
         table ! 1 ! unat (drop_bit 16 four AND 0xFF) XOR
         table ! 2 ! unat (drop_bit 8 four AND 0xFF) XOR
         table ! 3 ! unat (four AND 0xFF) XOR
         table ! 4 ! unat (drop_bit 24 three AND 0xFF) XOR
         table ! 5 ! unat (drop_bit 16 three AND 0xFF) XOR
         table ! 6 ! unat (drop_bit 8 three AND 0xFF) XOR
         table ! 7 ! unat (three AND 0xFF) XOR
         table ! 8 ! unat (drop_bit 24 two AND 0xFF) XOR
         table ! 9 ! unat (drop_bit 16 two AND 0xFF) XOR
         table ! 10 ! unat (drop_bit 8 two AND 0xFF) XOR
         table ! 11 ! unat (two AND 0xFF) XOR
         table ! 12 ! unat (drop_bit 24 one AND 0xFF) XOR
         table ! 13 ! unat (drop_bit 16 one AND 0xFF) XOR
         table ! 14 ! unat (drop_bit 8 one AND 0xFF) XOR
         table ! 15 ! unat (one AND 0xFF))"

text \<open>
  The outer loop: \<^verbatim>\<open>while (numBytes >= BytesAtOnce)\<close>, each pass four times the body
  above (\<^verbatim>\<open>Unroll\<close> = 4) on consecutive groups of 16 bytes, then
  \<^verbatim>\<open>numBytes -= BytesAtOnce; currentByte += BytesAtOnce;\<close>
\<close>

function Crc32_sixtyfour :: "u32 list list \<Rightarrow> u32 \<Rightarrow> byte list \<Rightarrow> u32 \<times> byte list" where
  "Crc32_sixtyfour table crc data =
     (if 64 \<le> length data
      then Crc32_sixtyfour table
             (fold (\<lambda>unrolling crc. Crc32_sixteen table crc (drop (16 * unrolling) data)) [0..<4] crc)
             (drop 64 data)
      else (crc, data))"
  by pat_completeness auto
termination
  by (relation "measure (\<lambda>(t, crc, data). length data)") auto

declare Crc32_sixtyfour.simps [simp del]

definition Crc32_hashCore :: "u32 crc_state \<Rightarrow> byte list \<Rightarrow> u32 crc_state" where
  "Crc32_hashCore s data =
     (let crc = NOT (m_hash_crc s);
          (crc, data) = Crc32_sixtyfour (m_lookupTable s) crc data;
          crc = crc_bytes (m_lookupTable s) crc data
      in s\<lparr>m_hash_crc := NOT crc\<rparr>)"

definition Crc32_hashFinal :: "u32 crc_state \<Rightarrow> byte list \<times> u32 crc_state" where
  "Crc32_hashFinal s = (let data = native_to_big32 (m_hash_crc s) in (memory_bytes32 data, s))"

subsection \<open>Crc64\<close>

text \<open>
  The body of the inner loop of \<^verbatim>\<open>Crc64::hashCore\<close> (little-endian branch), which reads
  two 64-bit integers.
\<close>

definition Crc64_sixteen :: "u64 list list \<Rightarrow> u64 \<Rightarrow> byte list \<Rightarrow> u64" where
  "Crc64_sixteen table crc data =
     (let one = get64bits data 0 XOR crc;
          two = get64bits data 8
      in table ! 0 ! unat (drop_bit 56 two AND 0xFF) XOR
         table ! 1 ! unat (drop_bit 48 two AND 0xFF) XOR
         table ! 2 ! unat (drop_bit 40 two AND 0xFF) XOR
         table ! 3 ! unat (drop_bit 32 two AND 0xFF) XOR
         table ! 4 ! unat (drop_bit 24 two AND 0xFF) XOR
         table ! 5 ! unat (drop_bit 16 two AND 0xFF) XOR
         table ! 6 ! unat (drop_bit 8 two AND 0xFF) XOR
         table ! 7 ! unat (two AND 0xFF) XOR
         table ! 8 ! unat (drop_bit 56 one AND 0xFF) XOR
         table ! 9 ! unat (drop_bit 48 one AND 0xFF) XOR
         table ! 10 ! unat (drop_bit 40 one AND 0xFF) XOR
         table ! 11 ! unat (drop_bit 32 one AND 0xFF) XOR
         table ! 12 ! unat (drop_bit 24 one AND 0xFF) XOR
         table ! 13 ! unat (drop_bit 16 one AND 0xFF) XOR
         table ! 14 ! unat (drop_bit 8 one AND 0xFF) XOR
         table ! 15 ! unat (one AND 0xFF))"

function Crc64_sixtyfour :: "u64 list list \<Rightarrow> u64 \<Rightarrow> byte list \<Rightarrow> u64 \<times> byte list" where
  "Crc64_sixtyfour table crc data =
     (if 64 \<le> length data
      then Crc64_sixtyfour table
             (fold (\<lambda>unrolling crc. Crc64_sixteen table crc (drop (16 * unrolling) data)) [0..<4] crc)
             (drop 64 data)
      else (crc, data))"
  by pat_completeness auto
termination
  by (relation "measure (\<lambda>(t, crc, data). length data)") auto

declare Crc64_sixtyfour.simps [simp del]

definition Crc64_hashCore :: "u64 crc_state \<Rightarrow> byte list \<Rightarrow> u64 crc_state" where
  "Crc64_hashCore s data =
     (let crc = NOT (m_hash_crc s);
          (crc, data) = Crc64_sixtyfour (m_lookupTable s) crc data;
          crc = crc_bytes (m_lookupTable s) crc data
      in s\<lparr>m_hash_crc := NOT crc\<rparr>)"

definition Crc64_hashFinal :: "u64 crc_state \<Rightarrow> byte list \<times> u64 crc_state" where
  "Crc64_hashFinal s = (let data = native_to_big64 (m_hash_crc s) in (memory_bytes64 data, s))"

section \<open>The drivers of HashAlgorithm\<close>

text \<open>
  The pure virtual functions of \<^verbatim>\<open>HashAlgorithm\<close> that the drivers call, as a record of
  functions on the state of the derived class.
\<close>

record 'm virtuals =
  initialize :: "'m hash_algorithm_scheme \<Rightarrow> 'm hash_algorithm_scheme"
  hashCore :: "'m hash_algorithm_scheme \<Rightarrow> byte list \<Rightarrow> 'm hash_algorithm_scheme"
  hashFinal :: "'m hash_algorithm_scheme \<Rightarrow> byte list \<times> 'm hash_algorithm_scheme"

definition computeHashInternal ::
  "'m virtuals \<Rightarrow> 'm hash_algorithm_scheme \<Rightarrow> byte list \<Rightarrow> 'm hash_algorithm_scheme"
where
  "computeHashInternal v s data =
     (let s = initialize v s;
          s = hashCore v s data;
          (digest, s) = hashFinal v s
      in s\<lparr>m_hashValue := digest\<rparr>)"

text \<open>\<^verbatim>\<open>computeHash(data, dataLength)\<close>: the returned vector and the state left behind.\<close>

definition computeHash ::
  "'m virtuals \<Rightarrow> 'm hash_algorithm_scheme \<Rightarrow> byte list \<Rightarrow> byte list \<times> 'm hash_algorithm_scheme"
where
  "computeHash v s data = (let s = computeHashInternal v s data in (m_hashValue s, s))"

text \<open>
  The input stream of \<^verbatim>\<open>computeHash(std::istream&)\<close>.  The class \<^verbatim>\<open>std::istream\<close> belongs to
  the C++ library, not to this repository; the members that the function calls are modelled
  after the C++ standard (clauses \<^emph>\<open>iostate flags functions\<close> and \<^emph>\<open>unformatted input
  functions\<close>).  A stream has

    \<^item> its error state \<^verbatim>\<open>rdstate()\<close>, a set of the bits \<^verbatim>\<open>eofbit\<close>, \<^verbatim>\<open>failbit\<close>, \<^verbatim>\<open>badbit\<close>;
    \<^item> its exception mask \<^verbatim>\<open>exceptions()\<close>: setting a bit of the mask throws;
    \<^item> a stream buffer that can seek or cannot (\<^verbatim>\<open>pubseekoff\<close> returns \<open>-1\<close>);
    \<^item> the read position and the bytes of the stream;
    \<^item> when the device fails, the number \<open>k\<close> of bytes that it delivers before: the stream
      buffer throws when it is asked for the byte at index \<open>k\<close> or for a later one.
\<close>

datatype iostate = Eofbit | Failbit | Badbit

record istream =
  is_rdstate :: "iostate set"
  is_exceptions :: "iostate set"
  is_seekable :: bool
  is_position :: nat
  is_contents :: "byte list"
  is_failure :: "nat option"




text \<open>The index of the byte at which the device fails, when the stream has such a byte.\<close>

definition failing_byte :: "istream \<Rightarrow> nat option" where
  "failing_byte st =
     (case is_failure st of
        None \<Rightarrow> None
      | Some k \<Rightarrow> if k < length (is_contents st) then Some k else None)"







text \<open>The virtual functions of the eight classes.\<close>

definition Md5_virtuals :: "(u32, unit) block_state_ext virtuals" where
  "Md5_virtuals = \<lparr>initialize = Md5_initialize, hashCore = Md5_hashCore, hashFinal = Md5_hashFinal\<rparr>"

definition Sha1_virtuals :: "(u32, unit) block_state_ext virtuals" where
  "Sha1_virtuals = \<lparr>initialize = Sha1_initialize, hashCore = Sha1_hashCore, hashFinal = Sha1_hashFinal\<rparr>"

definition Sha256_virtuals :: "(u32, unit) block_state_ext virtuals" where
  "Sha256_virtuals =
     \<lparr>initialize = Sha256_initialize, hashCore = Sha256_hashCore, hashFinal = Sha256_hashFinal\<rparr>"

definition Sha3_virtuals :: "(u64, unit sha3_state_ext) block_state_ext virtuals" where
  "Sha3_virtuals = \<lparr>initialize = Sha3_initialize, hashCore = Sha3_hashCore, hashFinal = Sha3_hashFinal\<rparr>"

definition Crc32_virtuals :: "(u32, unit) crc_state_ext virtuals" where
  "Crc32_virtuals = \<lparr>initialize = crc_initialize, hashCore = Crc32_hashCore, hashFinal = Crc32_hashFinal\<rparr>"

definition Crc64_virtuals :: "(u64, unit) crc_state_ext virtuals" where
  "Crc64_virtuals = \<lparr>initialize = crc_initialize, hashCore = Crc64_hashCore, hashFinal = Crc64_hashFinal\<rparr>"

definition XxHash32_virtuals :: "(u32, unit) xxhash_state_ext virtuals" where
  "XxHash32_virtuals =
     \<lparr>initialize = XxHash32_initialize, hashCore = XxHash32_hashCore, hashFinal = XxHash32_hashFinal\<rparr>"

definition XxHash64_virtuals :: "(u64, unit) xxhash_state_ext virtuals" where
  "XxHash64_virtuals =
     \<lparr>initialize = XxHash64_initialize, hashCore = XxHash64_hashCore, hashFinal = XxHash64_hashFinal\<rparr>"

text \<open>
  The operations on an instance: \<^verbatim>\<open>initialize\<close>, \<^verbatim>\<open>hashCore\<close> with its data,
  \<^verbatim>\<open>hashFinal\<close>, and \<^verbatim>\<open>computeHash\<close> with its data.  \<open>operate v s c\<close> is the state of the
  instance after the operation \<open>c\<close>.
\<close>

datatype operation = Initialize | HashCore "byte list" | HashFinal | ComputeHash "byte list"

definition operate :: "'m virtuals \<Rightarrow> 'm hash_algorithm_scheme \<Rightarrow> operation \<Rightarrow> 'm hash_algorithm_scheme" where
  "operate v s c =
     (case c of
        Initialize \<Rightarrow> initialize v s
      | HashCore data \<Rightarrow> hashCore v s data
      | HashFinal \<Rightarrow> snd (hashFinal v s)
      | ComputeHash data \<Rightarrow> snd (computeHash v s data))"

chapter \<open>Properties\<close>

section \<open>The buffering loops of the block engine\<close>

text \<open>The bytes that are buffered and not yet processed: the first \<^verbatim>\<open>m_bufferSize\<close> bytes of \<^verbatim>\<open>m_buffer\<close>.\<close>


definition buffered :: "('w, 'm) block_state_scheme \<Rightarrow> byte list" where
  "buffered s = take (m_bufferSize s) (m_buffer s)"

lemma fill_buffer_frame:
  "fst (fill_buffer B s d) =
     s\<lparr>m_buffer := m_buffer (fst (fill_buffer B s d)),
       m_bufferSize := m_bufferSize (fst (fill_buffer B s d))\<rparr>"
proof (induction d arbitrary: s)
  case Nil
  show ?case by simp
next
  case (Cons x xs)
  show ?case
  proof (cases "m_bufferSize s < B")
    case True
    let ?s = "s\<lparr>m_buffer := (m_buffer s)[m_bufferSize s := x], m_bufferSize := m_bufferSize s + 1\<rparr>"
    from Cons.IH [of ?s] True show ?thesis by simp
  next
    case False
    then show ?thesis by simp
  qed
qed

lemma fill_buffer_size:
  "m_bufferSize s \<le> B \<Longrightarrow>
   m_bufferSize (fst (fill_buffer B s d)) = m_bufferSize s + min (length d) (B - m_bufferSize s)"
  by (induction d arbitrary: s) auto

lemma fill_buffer_rest:
  "m_bufferSize s \<le> B \<Longrightarrow> snd (fill_buffer B s d) = drop (min (length d) (B - m_bufferSize s)) d"
proof (induction d arbitrary: s)
  case Nil
  show ?case by simp
next
  case (Cons x xs)
  show ?case
  proof (cases "m_bufferSize s < B")
    case True
    then have "min (length (x # xs)) (B - m_bufferSize s) = Suc (min (length xs) (B - (m_bufferSize s + 1)))"
      by auto
    with Cons.IH [of "s\<lparr>m_buffer := (m_buffer s)[m_bufferSize s := x], m_bufferSize := m_bufferSize s + 1\<rparr>"] True
    show ?thesis by simp
  next
    case False
    with Cons.prems show ?thesis by simp
  qed
qed

lemma fill_buffer_length:
  "length (m_buffer (fst (fill_buffer B s d))) = length (m_buffer s)"
  by (induction d arbitrary: s) auto

lemma take_update_append:
  "n < length b \<Longrightarrow> take (Suc n) (b[n := x]) = take n b @ [x]"
  by (simp add: take_Suc_conv_app_nth)

lemma fill_buffer_buffered:
  "m_bufferSize s \<le> B \<Longrightarrow> B \<le> length (m_buffer s) \<Longrightarrow>
   buffered (fst (fill_buffer B s d)) = buffered s @ take (min (length d) (B - m_bufferSize s)) d"
proof (induction d arbitrary: s)
  case Nil
  show ?case by simp
next
  case (Cons x xs)
  show ?case
  proof (cases "m_bufferSize s < B")
    case True
    let ?s = "s\<lparr>m_buffer := (m_buffer s)[m_bufferSize s := x], m_bufferSize := m_bufferSize s + 1\<rparr>"
    have m: "min (length (x # xs)) (B - m_bufferSize s) = Suc (min (length xs) (B - (m_bufferSize s + 1)))"
      using True by auto
    have "buffered ?s = buffered s @ [x]"
      using True Cons.prems by (simp add: buffered_def take_update_append)
    moreover have "buffered (fst (fill_buffer B ?s xs)) =
        buffered ?s @ take (min (length xs) (B - m_bufferSize ?s)) xs"
      using True Cons.prems by (intro Cons.IH) simp_all
    ultimately show ?thesis using True m by simp
  next
    case False
    with Cons.prems show ?thesis by simp
  qed
qed

lemma keep_remaining_frame:
  "keep_remaining s d =
     s\<lparr>m_buffer := m_buffer (keep_remaining s d), m_bufferSize := m_bufferSize (keep_remaining s d)\<rparr>"
proof (induction d arbitrary: s)
  case Nil
  show ?case by simp
next
  case (Cons x xs)
  let ?s = "s\<lparr>m_buffer := (m_buffer s)[m_bufferSize s := x], m_bufferSize := m_bufferSize s + 1\<rparr>"
  from Cons.IH [of ?s] show ?case by simp
qed

lemma keep_remaining_size:
  "m_bufferSize (keep_remaining s d) = m_bufferSize s + length d"
  by (induction d arbitrary: s) auto

lemma keep_remaining_length:
  "length (m_buffer (keep_remaining s d)) = length (m_buffer s)"
  by (induction d arbitrary: s) auto

lemma keep_remaining_buffered:
  "m_bufferSize s + length d \<le> length (m_buffer s) \<Longrightarrow>
   buffered (keep_remaining s d) = buffered s @ d"
proof (induction d arbitrary: s)
  case Nil
  show ?case by simp
next
  case (Cons x xs)
  let ?s = "s\<lparr>m_buffer := (m_buffer s)[m_bufferSize s := x], m_bufferSize := m_bufferSize s + 1\<rparr>"
  have "buffered ?s = buffered s @ [x]"
    using Cons.prems by (simp add: buffered_def take_update_append)
  moreover have "buffered (keep_remaining ?s xs) = buffered ?s @ xs"
    using Cons.prems by (intro Cons.IH) simp
  ultimately show ?case by simp
qed


section \<open>Full blocks\<close>

text \<open>
  The reference for the chunking: starting from the register file \<open>h\<close>, every complete
  block of \<open>B\<close> bytes at the front of \<open>xs\<close> goes through \<open>pb\<close>; the result is the register
  file and the incomplete block that is left.
\<close>

function absorb_blocks ::
  "nat \<Rightarrow> ('w list \<Rightarrow> byte list \<Rightarrow> 'w list) \<Rightarrow> 'w list \<Rightarrow> byte list \<Rightarrow> 'w list \<times> byte list"
where
  "absorb_blocks B pb h xs =
     (if 0 < B \<and> B \<le> length xs then absorb_blocks B pb (pb h (take B xs)) (drop B xs) else (h, xs))"
  by pat_completeness auto
termination
  by (relation "measure (\<lambda>(B, pb, h, xs). length xs)") auto

declare absorb_blocks.simps [simp del]

lemma absorb_blocks_stop: "\<not> (0 < B \<and> B \<le> length xs) \<Longrightarrow> absorb_blocks B pb h xs = (h, xs)"
  by (subst absorb_blocks.simps) auto

lemma absorb_blocks_short: "length xs < B \<Longrightarrow> absorb_blocks B pb h xs = (h, xs)"
  by (rule absorb_blocks_stop) simp

lemma process_full_blocks_stop:
  "\<not> (0 < B \<and> B \<le> length d) \<Longrightarrow> process_full_blocks B pb s d = (s, d)"
  by (subst process_full_blocks.simps) auto

lemma absorb_blocks_step:
  "0 < B \<Longrightarrow> B \<le> length xs \<Longrightarrow>
   absorb_blocks B pb h xs = absorb_blocks B pb (pb h (take B xs)) (drop B xs)"
  by (subst absorb_blocks.simps) simp

lemma absorb_blocks_rest_length: "0 < B \<Longrightarrow> length (snd (absorb_blocks B pb h xs)) < B"
proof (induction B pb h xs rule: absorb_blocks.induct)
  case (1 B pb h xs)
  show ?case
  proof (cases "0 < B \<and> B \<le> length xs")
    case True
    with "1.IH" "1.prems" show ?thesis by (simp add: absorb_blocks_step)
  next
    case False
    with "1.prems" show ?thesis by (simp add: absorb_blocks_stop)
  qed
qed

lemma absorb_blocks_rest_le: "length (snd (absorb_blocks B pb h xs)) \<le> length xs"
proof (induction B pb h xs rule: absorb_blocks.induct)
  case (1 B pb h xs)
  show ?case
  proof (cases "0 < B \<and> B \<le> length xs")
    case True
    with "1.IH" have "length (snd (absorb_blocks B pb (pb h (take B xs)) (drop B xs))) \<le> length (drop B xs)"
      by simp
    with True show ?thesis by (subst absorb_blocks.simps) simp
  next
    case False
    then show ?thesis by (simp add: absorb_blocks_stop)
  qed
qed

lemma absorb_blocks_append:
  "absorb_blocks B pb h (xs @ ys) =
     absorb_blocks B pb (fst (absorb_blocks B pb h xs)) (snd (absorb_blocks B pb h xs) @ ys)"
proof (induction B pb h xs rule: absorb_blocks.induct)
  case (1 B pb h xs)
  show ?case
  proof (cases "0 < B \<and> B \<le> length xs")
    case True
    then have "absorb_blocks B pb h (xs @ ys) =
        absorb_blocks B pb (pb h (take B xs)) (drop B xs @ ys)"
      by (subst absorb_blocks.simps) simp
    also have "\<dots> = absorb_blocks B pb (fst (absorb_blocks B pb (pb h (take B xs)) (drop B xs)))
        (snd (absorb_blocks B pb (pb h (take B xs)) (drop B xs)) @ ys)"
      using True by (intro "1.IH") simp_all
    also have "absorb_blocks B pb (pb h (take B xs)) (drop B xs) = absorb_blocks B pb h xs"
      using True by (simp add: absorb_blocks_step)
    finally show ?thesis .
  next
    case False
    then have "absorb_blocks B pb h xs = (h, xs)"
      by (rule absorb_blocks_stop)
    then show ?thesis by simp
  qed
qed

lemma process_full_blocks_frame:
  "fst (process_full_blocks B pb s d) =
     s\<lparr>m_hash := m_hash (fst (process_full_blocks B pb s d)),
       m_numBytes := m_numBytes (fst (process_full_blocks B pb s d))\<rparr>"
proof (induction B pb s d rule: process_full_blocks.induct)
  case (1 B pb s d)
  show ?case
  proof (cases "0 < B \<and> B \<le> length d")
    case True
    let ?s = "s\<lparr>m_hash := pb (m_hash s) (take B d), m_numBytes := m_numBytes s + of_nat B\<rparr>"
    have e: "process_full_blocks B pb s d = process_full_blocks B pb ?s (drop B d)"
      using True by (subst process_full_blocks.simps) simp
    from "1.IH" True have "fst (process_full_blocks B pb ?s (drop B d)) =
       ?s\<lparr>m_hash := m_hash (fst (process_full_blocks B pb ?s (drop B d))),
           m_numBytes := m_numBytes (fst (process_full_blocks B pb ?s (drop B d)))\<rparr>"
      by simp
    then show ?thesis unfolding e by simp
  next
    case False
    then show ?thesis by (simp add: process_full_blocks_stop)
  qed
qed

lemma process_full_blocks_absorb:
  "m_hash (fst (process_full_blocks B pb s d)) = fst (absorb_blocks B pb (m_hash s) d) \<and>
   snd (process_full_blocks B pb s d) = snd (absorb_blocks B pb (m_hash s) d) \<and>
   m_numBytes (fst (process_full_blocks B pb s d)) =
     m_numBytes s + of_nat (length d - length (snd (absorb_blocks B pb (m_hash s) d)))"
proof (induction B pb s d rule: process_full_blocks.induct)
  case (1 B pb s d)
  show ?case
  proof (cases "0 < B \<and> B \<le> length d")
    case True
    let ?s = "s\<lparr>m_hash := pb (m_hash s) (take B d), m_numBytes := m_numBytes s + of_nat B\<rparr>"
    have e: "process_full_blocks B pb s d = process_full_blocks B pb ?s (drop B d)"
      using True by (subst process_full_blocks.simps) simp
    have a: "absorb_blocks B pb (m_hash s) d = absorb_blocks B pb (pb (m_hash s) (take B d)) (drop B d)"
      using True by (simp add: absorb_blocks_step)
    have le: "length (snd (absorb_blocks B pb (pb (m_hash s) (take B d)) (drop B d))) \<le> length d - B"
      using absorb_blocks_rest_le [of B pb "pb (m_hash s) (take B d)" "drop B d"] by simp
    from "1.IH" True have ih:
      "m_hash (fst (process_full_blocks B pb ?s (drop B d))) = fst (absorb_blocks B pb (m_hash ?s) (drop B d))"
      "snd (process_full_blocks B pb ?s (drop B d)) = snd (absorb_blocks B pb (m_hash ?s) (drop B d))"
      "m_numBytes (fst (process_full_blocks B pb ?s (drop B d))) =
         m_numBytes ?s + of_nat (length (drop B d) - length (snd (absorb_blocks B pb (m_hash ?s) (drop B d))))"
      by simp_all
    have n: "B + (length d - B - length (snd (absorb_blocks B pb (pb (m_hash s) (take B d)) (drop B d)))) =
        length d - length (snd (absorb_blocks B pb (pb (m_hash s) (take B d)) (drop B d)))"
      using True le by arith
    have "m_numBytes s + of_nat B + of_nat (length d - B - length (snd (absorb_blocks B pb (pb (m_hash s) (take B d)) (drop B d)))) =
        m_numBytes s + of_nat (length d - length (snd (absorb_blocks B pb (pb (m_hash s) (take B d)) (drop B d))))"
      unfolding n [symmetric] by (simp only: of_nat_add add.assoc)
    with ih show ?thesis
      unfolding e a by simp
  next
    case False
    then have "process_full_blocks B pb s d = (s, d)" "absorb_blocks B pb (m_hash s) d = (m_hash s, d)"
      by (simp_all add: process_full_blocks_stop absorb_blocks_stop)
    then show ?thesis by simp
  qed
qed


section \<open>hashCore absorbs every complete block\<close>

lemma buffered_length: "m_bufferSize s \<le> length (m_buffer s) \<Longrightarrow> length (buffered s) = m_bufferSize s"
  by (simp add: buffered_def)

lemma block_hashCore_frame:
  "\<exists>h n k b. block_hashCore B pb s d = s\<lparr>m_hash := h, m_numBytes := n, m_bufferSize := k, m_buffer := b\<rparr>"
proof -
  obtain s1 c1 where f: "(if 0 < m_bufferSize s then fill_buffer B s d else (s, d)) = (s1, c1)"
    by (cases "if 0 < m_bufferSize s then fill_buffer B s d else (s, d)") auto
  have "s1 = s\<lparr>m_buffer := m_buffer s1, m_bufferSize := m_bufferSize s1\<rparr>"
  proof (cases "0 < m_bufferSize s")
    case True
    with f have "s1 = fst (fill_buffer B s d)" by simp
    then show ?thesis using fill_buffer_frame [of B s d] by simp
  next
    case False
    with f show ?thesis by simp
  qed
  then obtain b1 k1 where s1: "s1 = s\<lparr>m_buffer := b1, m_bufferSize := k1\<rparr>"
    by blast
  define s2 where "s2 = (if m_bufferSize s1 = B
                then s1\<lparr>m_hash := pb (m_hash s1) (take B (m_buffer s1)),
                        m_numBytes := m_numBytes s1 + of_nat B,
                        m_bufferSize := 0\<rparr>
                else s1)"
  have "\<exists>h n k b. s2 = s\<lparr>m_hash := h, m_numBytes := n, m_bufferSize := k, m_buffer := b\<rparr>"
  proof (cases "m_bufferSize s1 = B")
    case True
    then have "s2 = s\<lparr>m_hash := pb (m_hash s1) (take B (m_buffer s1)),
        m_numBytes := m_numBytes s1 + of_nat B, m_bufferSize := 0, m_buffer := b1\<rparr>"
      by (simp add: s2_def s1)
    then show ?thesis by blast
  next
    case False
    then have "s2 = s\<lparr>m_hash := m_hash s, m_numBytes := m_numBytes s, m_bufferSize := k1, m_buffer := b1\<rparr>"
      by (simp add: s2_def s1)
    then show ?thesis by blast
  qed
  then obtain h2 n2 k2 b2 where s2: "s2 = s\<lparr>m_hash := h2, m_numBytes := n2, m_bufferSize := k2, m_buffer := b2\<rparr>"
    by blast
  obtain s3 c3 where p: "process_full_blocks B pb s2 c1 = (s3, c3)"
    by (cases "process_full_blocks B pb s2 c1") auto
  have "s3 = s2\<lparr>m_hash := m_hash s3, m_numBytes := m_numBytes s3\<rparr>"
    using process_full_blocks_frame [of B pb s2 c1] p by simp
  then obtain h3 n3 where s3: "s3 = s2\<lparr>m_hash := h3, m_numBytes := n3\<rparr>"
    by blast
  obtain b4 k4 where s4: "keep_remaining s3 c3 = s3\<lparr>m_buffer := b4, m_bufferSize := k4\<rparr>"
    using keep_remaining_frame [of s3 c3] by blast
  have r: "block_hashCore B pb s d = (if c1 = [] then s2 else keep_remaining s3 c3)"
    unfolding block_hashCore_def f using p by (simp add: s2_def Let_def)
  show ?thesis
  proof (cases "c1 = []")
    case True
    with r s2 show ?thesis by auto
  next
    case False
    have "keep_remaining s3 c3 = s\<lparr>m_hash := h3, m_numBytes := n3, m_bufferSize := k4, m_buffer := b4\<rparr>"
      by (subst s4) (simp add: s3 s2)
    with False r show ?thesis by auto
  qed
qed

lemma block_hashCore_absorb:
  assumes B: "0 < B" and n: "m_bufferSize s < B" and len: "B \<le> length (m_buffer s)"
  shows "m_hash (block_hashCore B pb s d) = fst (absorb_blocks B pb (m_hash s) (buffered s @ d))"
    and "buffered (block_hashCore B pb s d) = snd (absorb_blocks B pb (m_hash s) (buffered s @ d))"
    and "m_bufferSize (block_hashCore B pb s d) = length (snd (absorb_blocks B pb (m_hash s) (buffered s @ d)))"
    and "m_numBytes (block_hashCore B pb s d) =
           m_numBytes s + of_nat (m_bufferSize s + length d
              - length (snd (absorb_blocks B pb (m_hash s) (buffered s @ d))))"
    and "length (m_buffer (block_hashCore B pb s d)) = length (m_buffer s)"
proof -
  let ?r = "absorb_blocks B pb (m_hash s) (buffered s @ d)"
  let ?P = "\<lambda>t. m_hash t = fst ?r \<and> buffered t = snd ?r \<and> m_bufferSize t = length (snd ?r) \<and>
      m_numBytes t = m_numBytes s + of_nat (m_bufferSize s + length d - length (snd ?r)) \<and>
      length (m_buffer t) = length (m_buffer s)"
  have bl: "length (buffered s) = m_bufferSize s"
    using n len by (simp add: buffered_def)
  have "?P (block_hashCore B pb s d)"
  proof (cases "0 < m_bufferSize s")
    case False
    then have z: "m_bufferSize s = 0" "buffered s = []" by (simp_all add: buffered_def)
    show ?thesis
    proof (cases "d = []")
      case True
      with z B show ?thesis
        by (simp add: block_hashCore_def absorb_blocks_short)
    next
      case False
      obtain s3 c3 where p: "process_full_blocks B pb s d = (s3, c3)"
        by (cases "process_full_blocks B pb s d") auto
      from process_full_blocks_absorb [of B pb s d] p
      have a: "m_hash s3 = fst (absorb_blocks B pb (m_hash s) d)"
        "c3 = snd (absorb_blocks B pb (m_hash s) d)"
        "m_numBytes s3 = m_numBytes s + of_nat (length d - length (snd (absorb_blocks B pb (m_hash s) d)))"
        by simp_all
      from process_full_blocks_frame [of B pb s d] p
      have fr: "s3 = s\<lparr>m_hash := m_hash s3, m_numBytes := m_numBytes s3\<rparr>" by simp
      have b3: "m_bufferSize s3 = 0" "m_buffer s3 = m_buffer s"
        using z by (subst fr, simp)+
      have c3: "length c3 < B"
        unfolding a using B by (rule absorb_blocks_rest_length)
      have k: "keep_remaining s3 c3 =
          s3\<lparr>m_buffer := m_buffer (keep_remaining s3 c3), m_bufferSize := m_bufferSize (keep_remaining s3 c3)\<rparr>"
        by (rule keep_remaining_frame)
      have kh: "m_hash (keep_remaining s3 c3) = m_hash s3" "m_numBytes (keep_remaining s3 c3) = m_numBytes s3"
        by (subst k, simp)+
      have kb: "buffered (keep_remaining s3 c3) = c3"
        using keep_remaining_buffered [of s3 c3] b3 c3 len by (simp add: buffered_def)
      have r: "block_hashCore B pb s d = keep_remaining s3 c3"
        using z B False p by (simp add: block_hashCore_def)
      show ?thesis
        unfolding r using kh kb a z b3
        by (simp add: keep_remaining_size keep_remaining_length)
    qed
  next
    case True
    define k where "k = min (length d) (B - m_bufferSize s)"
    obtain s1 c1 where f: "fill_buffer B s d = (s1, c1)"
      by (cases "fill_buffer B s d") auto
    have s1: "m_bufferSize s1 = m_bufferSize s + k" "c1 = drop k d"
      "buffered s1 = buffered s @ take k d" "length (m_buffer s1) = length (m_buffer s)"
      using fill_buffer_size [of s B d] fill_buffer_rest [of s B d] fill_buffer_buffered [of s B d]
        fill_buffer_length [of B s d] f n len
      by (simp_all add: k_def)
    have fr1: "s1 = s\<lparr>m_buffer := m_buffer s1, m_bufferSize := m_bufferSize s1\<rparr>"
      using fill_buffer_frame [of B s d] f by simp
    have h1: "m_hash s1 = m_hash s" "m_numBytes s1 = m_numBytes s"
      by (subst fr1, simp)+
    show ?thesis
    proof (cases "m_bufferSize s + k = B")
      case False
      then have kd: "k = length d" "m_bufferSize s + length d < B"
        using n by (auto simp: k_def min_def split: if_splits)
      then have c1: "c1 = []" using s1 by simp
      have r: "block_hashCore B pb s d = s1"
        using True f c1 s1 False by (simp add: block_hashCore_def)
      have "absorb_blocks B pb (m_hash s) (buffered s @ d) = (m_hash s, buffered s @ d)"
        using kd bl by (intro absorb_blocks_short) simp
      then show ?thesis
        unfolding r using s1 h1 kd bl by simp
    next
      case full: True
      then have kB: "k = B - m_bufferSize s" "k \<le> length d"
        using n by (auto simp: k_def min_def split: if_splits)
      define s2 where "s2 = s1\<lparr>m_hash := pb (m_hash s1) (take B (m_buffer s1)),
                        m_numBytes := m_numBytes s1 + of_nat B, m_bufferSize := 0\<rparr>"
      have tb: "take B (m_buffer s1) = buffered s @ take k d"
        using s1 full by (simp add: buffered_def)
      have len_all: "B \<le> length (buffered s @ d)"
        using bl kB n by simp
      have tk: "take B (buffered s @ d) = buffered s @ take k d" "drop B (buffered s @ d) = drop k d"
        using bl kB n by simp_all
      have step: "absorb_blocks B pb (m_hash s) (buffered s @ d) =
          absorb_blocks B pb (pb (m_hash s) (buffered s @ take k d)) (drop k d)"
        using absorb_blocks_step [OF B len_all, of pb "m_hash s"] tk by simp
      show ?thesis
      proof (cases "c1 = []")
        case True
        then have dk: "drop k d = []" using s1 by simp
        have r: "block_hashCore B pb s d = s2"
          using \<open>0 < m_bufferSize s\<close> f True s1 full by (simp add: block_hashCore_def s2_def)
        have "absorb_blocks B pb (m_hash s) (buffered s @ d) = (pb (m_hash s) (buffered s @ take k d), [])"
          unfolding step dk using B by (simp add: absorb_blocks_short)
        moreover have "m_bufferSize s + length d = B"
          using dk kB n by simp
        ultimately show ?thesis
          unfolding r using h1 tb s1 by (simp add: s2_def buffered_def)
      next
        case False
        obtain s3 c3 where p: "process_full_blocks B pb s2 c1 = (s3, c3)"
          by (cases "process_full_blocks B pb s2 c1") auto
        have h2: "m_hash s2 = pb (m_hash s) (buffered s @ take k d)"
          "m_numBytes s2 = m_numBytes s + of_nat B" "m_bufferSize s2 = 0"
          "length (m_buffer s2) = length (m_buffer s)"
          using h1 tb s1 by (simp_all add: s2_def)
        from process_full_blocks_absorb [of B pb s2 c1] p h2 s1 step
        have a: "m_hash s3 = fst ?r" "c3 = snd ?r"
          "m_numBytes s3 = m_numBytes s + of_nat B + of_nat (length (drop k d) - length (snd ?r))"
          by simp_all
        from process_full_blocks_frame [of B pb s2 c1] p
        have fr: "s3 = s2\<lparr>m_hash := m_hash s3, m_numBytes := m_numBytes s3\<rparr>" by simp
        have b3: "m_bufferSize s3 = 0" "length (m_buffer s3) = length (m_buffer s)"
          using h2 by (subst fr, simp)+
        have c3: "length c3 < B"
          unfolding a using B by (rule absorb_blocks_rest_length)
        have c3le: "length (snd ?r) \<le> length (drop k d)"
          unfolding step by (rule absorb_blocks_rest_le)
        have kf: "keep_remaining s3 c3 =
            s3\<lparr>m_buffer := m_buffer (keep_remaining s3 c3), m_bufferSize := m_bufferSize (keep_remaining s3 c3)\<rparr>"
          by (rule keep_remaining_frame)
        have kh: "m_hash (keep_remaining s3 c3) = m_hash s3" "m_numBytes (keep_remaining s3 c3) = m_numBytes s3"
          by (subst kf, simp)+
        have kb: "buffered (keep_remaining s3 c3) = c3"
          using keep_remaining_buffered [of s3 c3] b3 c3 len by (simp add: buffered_def)
        have r: "block_hashCore B pb s d = keep_remaining s3 c3"
          using \<open>0 < m_bufferSize s\<close> f False s1 full p by (simp add: block_hashCore_def s2_def)
        have cnt: "B + (length (drop k d) - length (snd ?r)) = m_bufferSize s + length d - length (snd ?r)"
          using c3le kB n by simp
        have "m_numBytes s + of_nat B + of_nat (length (drop k d) - length (snd ?r)) =
            m_numBytes s + of_nat (m_bufferSize s + length d - length (snd ?r))"
          unfolding cnt [symmetric] by (simp only: of_nat_add add.assoc)
        then show ?thesis
          unfolding r using kh kb a b3
          by (simp add: keep_remaining_size keep_remaining_length)
      qed
    qed
  qed
  then show "m_hash (block_hashCore B pb s d) = fst ?r"
    and "buffered (block_hashCore B pb s d) = snd ?r"
    and "m_bufferSize (block_hashCore B pb s d) = length (snd ?r)"
    and "m_numBytes (block_hashCore B pb s d) =
           m_numBytes s + of_nat (m_bufferSize s + length d - length (snd ?r))"
    and "length (m_buffer (block_hashCore B pb s d)) = length (m_buffer s)"
    by simp_all
qed


lemma foldl_block_hashCore:
  assumes B: "0 < B"
  shows "m_bufferSize s < B \<Longrightarrow> B \<le> length (m_buffer s) \<Longrightarrow>
    m_hash (foldl (block_hashCore B pb) s cs) = fst (absorb_blocks B pb (m_hash s) (buffered s @ concat cs)) \<and>
    buffered (foldl (block_hashCore B pb) s cs) = snd (absorb_blocks B pb (m_hash s) (buffered s @ concat cs)) \<and>
    m_bufferSize (foldl (block_hashCore B pb) s cs) =
      length (snd (absorb_blocks B pb (m_hash s) (buffered s @ concat cs))) \<and>
    m_numBytes (foldl (block_hashCore B pb) s cs) =
      m_numBytes s + of_nat (m_bufferSize s + length (concat cs)
         - length (snd (absorb_blocks B pb (m_hash s) (buffered s @ concat cs)))) \<and>
    length (m_buffer (foldl (block_hashCore B pb) s cs)) = length (m_buffer s)"
proof (induction cs arbitrary: s)
  case Nil
  then have "absorb_blocks B pb (m_hash s) (buffered s) = (m_hash s, buffered s)"
    by (intro absorb_blocks_short) (simp add: buffered_def)
  with Nil show ?case by (simp add: buffered_def)
next
  case (Cons c cs)
  let ?t = "block_hashCore B pb s c"
  let ?r1 = "absorb_blocks B pb (m_hash s) (buffered s @ c)"
  let ?r = "absorb_blocks B pb (m_hash s) (buffered s @ concat (c # cs))"
  note t = block_hashCore_absorb [OF B Cons.prems, of pb c]
  have r1: "length (snd ?r1) < B"
    using B by (rule absorb_blocks_rest_length)
  have tinv: "m_bufferSize ?t < B" "B \<le> length (m_buffer ?t)"
    using t r1 Cons.prems by simp_all
  have app: "?r = absorb_blocks B pb (fst ?r1) (snd ?r1 @ concat cs)"
    using absorb_blocks_append [of B pb "m_hash s" "buffered s @ c" "concat cs"] by simp
  have bl: "length (buffered s) = m_bufferSize s"
    using Cons.prems by (simp add: buffered_def)
  have le1: "length (snd ?r1) \<le> m_bufferSize s + length c"
    using absorb_blocks_rest_le [of B pb "m_hash s" "buffered s @ c"] bl by simp
  have le2: "length (snd ?r) \<le> length (snd ?r1) + length (concat cs)"
    unfolding app using absorb_blocks_rest_le [of B pb "fst ?r1" "snd ?r1 @ concat cs"] by simp
  have cnt: "(m_bufferSize s + length c - length (snd ?r1)) +
      (length (snd ?r1) + length (concat cs) - length (snd ?r)) =
      m_bufferSize s + length (concat (c # cs)) - length (snd ?r)"
    using le1 le2 by simp
  have nb: "m_numBytes s + of_nat (m_bufferSize s + length c - length (snd ?r1)) +
      of_nat (length (snd ?r1) + length (concat cs) - length (snd ?r)) =
      m_numBytes s + of_nat (m_bufferSize s + length (concat (c # cs)) - length (snd ?r))"
    unfolding cnt [symmetric] by (simp only: of_nat_add add.assoc)
  from Cons.IH [OF tinv] t app nb show ?case
    by simp
qed

section \<open>The padding\<close>

lemma fold_update_const:
  "lo \<le> hi \<Longrightarrow> hi \<le> length b \<Longrightarrow>
   fold (\<lambda>i b. b[i := v]) [lo..<hi] b = take lo b @ replicate (hi - lo) v @ drop hi b"
proof (induction hi)
  case 0
  then show ?case by simp
next
  case (Suc hi)
  show ?case
  proof (cases "lo = Suc hi")
    case True
    then show ?thesis by simp
  next
    case False
    with Suc.prems have lo: "lo \<le> hi" and hi: "hi < length b" by simp_all
    have "fold (\<lambda>i b. b[i := v]) [lo..<Suc hi] b = (take lo b @ replicate (hi - lo) v @ drop hi b)[hi := v]"
      using lo hi Suc.IH by simp
    also have "\<dots> = take lo b @ replicate (hi - lo) v @ (drop hi b)[0 := v]"
      using lo hi by (simp add: list_update_append)
    also have "(drop hi b)[0 := v] = v # drop (Suc hi) b"
      using hi by (simp add: Cons_nth_drop_Suc [symmetric])
    also have "take lo b @ replicate (hi - lo) v @ v # drop (Suc hi) b =
        take lo b @ replicate (Suc hi - lo) v @ drop (Suc hi) b"
      using lo by (simp add: Suc_diff_le replicate_append_same)
    finally show ?thesis .
  qed
qed

lemma fold_update_shifted:
  "k \<le> length e \<Longrightarrow>
   fold (\<lambda>i e. e[i - c := v]) [c..<c + k] e = replicate k v @ drop k e"
proof (induction k)
  case 0
  then show ?case by simp
next
  case (Suc k)
  then have k: "k < length e" by simp
  have "fold (\<lambda>i e. e[i - c := v]) [c..<c + Suc k] e = (replicate k v @ drop k e)[k := v]"
    using Suc by simp
  also have "\<dots> = replicate k v @ (drop k e)[0 := v]"
    by (simp add: list_update_append)
  also have "(drop k e)[0 := v] = v # drop (Suc k) e"
    using k by (simp add: Cons_nth_drop_Suc [symmetric])
  also have "replicate k v @ v # drop (Suc k) e = replicate (Suc k) v @ drop (Suc k) e"
    by (simp add: replicate_append_same)
  finally show ?case .
qed

lemma write_bytes_eq:
  "p + length xs \<le> length buf \<Longrightarrow>
   write_bytes buf p xs = take p buf @ xs @ drop (p + length xs) buf"
proof (induction xs arbitrary: buf p)
  case Nil
  then show ?case by simp
next
  case (Cons x xs)
  then have p: "p < length buf" by simp
  have "write_bytes (buf[p := x]) (p + 1) xs =
      take (p + 1) (buf[p := x]) @ xs @ drop (p + 1 + length xs) (buf[p := x])"
    using Cons.prems by (intro Cons.IH) simp
  also have "take (p + 1) (buf[p := x]) = take p buf @ [x]"
    using p by (simp add: take_update_append)
  also have "drop (p + 1 + length xs) (buf[p := x]) = drop (p + length (x # xs)) buf"
    by simp
  finally show ?case by simp
qed

text \<open>
  What \<^verbatim>\<open>processBuffer\<close> computes, as a function of the register file \<open>h\<close>, the count
  \<^verbatim>\<open>m_numBytes\<close> and the buffered bytes: one padded block when the \<^verbatim>\<open>0x80\<close> byte and the
  eight length bytes fit behind the buffered bytes, two blocks when they do not.
\<close>

definition md_padding_result ::
  "(u64 \<Rightarrow> byte list) \<Rightarrow> (u32 list \<Rightarrow> byte list \<Rightarrow> u32 list) \<Rightarrow> u32 list \<Rightarrow> u64 \<Rightarrow> byte list \<Rightarrow> u32 list"
where
  "md_padding_result length_bytes pb h numBytes pending =
     (let n = length pending;
          msgBits = 8 * (numBytes + of_nat n)
      in if n < 56
         then pb h (pending @ [0x80] @ replicate (55 - n) 0 @ length_bytes msgBits)
         else pb (pb h (pending @ [0x80] @ replicate (63 - n) 0)) (replicate 56 0 @ length_bytes msgBits))"

lemma md_processBuffer_from_hash:
  assumes n: "m_bufferSize s < 64" and len: "length (m_buffer s) = 64"
    and e: "length extra0 = 64" and lb: "\<And>m. length (lb m) = 8"
  shows "m_hash (md_processBuffer_from lb pb extra0 s) =
     md_padding_result lb pb (m_hash s) (m_numBytes s) (buffered s)"
proof -
  let ?n = "m_bufferSize s"
  let ?m = "8 * (m_numBytes s + of_nat ?n)"
  let ?b1 = "fold (\<lambda>i b. b[i := 0]) [?n + 1 ..< 64] ((m_buffer s)[?n := 128])"
  have bl: "length (buffered s) = ?n"
    using n len by (simp add: buffered_def)
  have b1: "?b1 = buffered s @ [0x80] @ replicate (63 - ?n) 0"
    using n len by (simp add: fold_update_const take_update_append buffered_def)
  show ?thesis
  proof (cases "?n < 56")
    case True
    then have pl: "(?n * 8 + 1) mod 512 = ?n * 8 + 1" "?n * 8 + 1 \<le> 448"
      "(?n * 8 + 1 + (448 - (?n * 8 + 1))) div 8 = 56"
      by simp_all
    have "length ?b1 = 64"
      unfolding b1 using n bl by simp
    then have "write_bytes ?b1 56 (lb ?m) = take 56 ?b1 @ lb ?m"
      using lb by (simp add: write_bytes_eq)
    also have "take 56 ?b1 = buffered s @ [0x80] @ replicate (55 - ?n) 0"
    proof -
      have "56 - ?n = Suc (55 - ?n)" using True by simp
      then show ?thesis
        unfolding b1 using True bl by (simp add: min_def)
    qed
    finally have w: "write_bytes ?b1 56 (lb ?m) = buffered s @ [0x80] @ replicate (55 - ?n) 0 @ lb ?m"
      by simp
    have t: "take 64 (buffered s @ [0x80] @ replicate (55 - ?n) 0 @ lb ?m) =
        buffered s @ [0x80] @ replicate (55 - ?n) 0 @ lb ?m"
      using True bl lb by simp
    show ?thesis
      using True n pl w t bl
      by (simp add: md_processBuffer_from_def md_padding_result_def Let_def)
  next
    case False
    then have pl: "(?n * 8 + 1) mod 512 = ?n * 8 + 1" "\<not> ?n * 8 + 1 \<le> 448"
      "(?n * 8 + 1 + (512 + 448 - (?n * 8 + 1))) div 8 = 120"
      using n by simp_all
    have mx: "max (?n + 1) 64 = 64" using n by simp
    have "fold (\<lambda>i e. e[i - 64 := 0]) [64..<64 + 56] extra0 = replicate 56 0 @ drop 56 extra0"
      using e by (intro fold_update_shifted) simp
    then have e1: "fold (\<lambda>i e. e[i - 64 := 0]) [64..<120] extra0 = replicate 56 0 @ drop 56 extra0"
      by simp
    have w: "write_bytes (replicate 56 0 @ drop 56 extra0) 56 (lb ?m) = replicate 56 0 @ lb ?m"
      using e lb by (simp add: write_bytes_eq)
    have t1: "take 64 ?b1 = buffered s @ [0x80] @ replicate (63 - ?n) 0"
      unfolding b1 using n bl by simp
    have t2: "take 64 (replicate 56 0 @ lb ?m) = replicate 56 0 @ lb ?m"
      using lb by simp
    show ?thesis
      using False n pl mx e1 w t1 t2 bl
      by (simp add: md_processBuffer_from_def md_padding_result_def Let_def)
  qed
qed

section \<open>Bytes of words\<close>

lemma mask8: "(0xFF :: 'a::len word) = mask 8"
  by (simp add: mask_eq_exp_minus_1)

lemma ucast_and_ff: "(ucast (w AND 0xFF :: 'a::len word) :: byte) = ucast w"
  unfolding mask8 by (rule bit_word_eqI) (auto simp: bit_simps dest: bit_imp_le_length)

lemma memory_bytes32_little_endian: "memory_bytes32 x = little_endian32 x"
  by (simp add: memory_bytes32_def little_endian32_def)

lemma memory_bytes64_little_endian: "memory_bytes64 x = little_endian64 x"
  by (simp add: memory_bytes64_def little_endian64_def)

lemma Md5_length_bytes_eq: "Md5_length_bytes m = little_endian64 m"
  by (simp add: Md5_length_bytes_def little_endian64_def ucast_and_ff)

lemma Sha_length_bytes_eq: "Sha_length_bytes m = big_endian64 m"
  by (simp add: Sha_length_bytes_def big_endian64_def ucast_and_ff)

lemma get32bits_byte0: "(ucast (get32bits bs off) :: byte) = bs ! off"
  unfolding get32bits_def by (intro bit_word_eqI) (auto simp: bit_simps dest: bit_imp_le_length)

lemma get32bits_byte1: "(ucast (drop_bit 8 (get32bits bs off)) :: byte) = bs ! (off + 1)"
  unfolding get32bits_def by (intro bit_word_eqI) (auto simp: bit_simps dest: bit_imp_le_length)

lemma get32bits_byte2: "(ucast (drop_bit 16 (get32bits bs off)) :: byte) = bs ! (off + 2)"
  unfolding get32bits_def by (intro bit_word_eqI) (auto simp: bit_simps dest: bit_imp_le_length)

lemma get32bits_byte3: "(ucast (drop_bit 24 (get32bits bs off)) :: byte) = bs ! (off + 3)"
  unfolding get32bits_def by (intro bit_word_eqI) (auto simp: bit_simps dest: bit_imp_le_length)

lemmas get32bits_bytes = get32bits_byte0 get32bits_byte1 get32bits_byte2 get32bits_byte3

lemma get64bits_byte0: "(ucast (get64bits bs off) :: byte) = bs ! off"
  unfolding get64bits_def by (intro bit_word_eqI) (auto simp: bit_simps dest: bit_imp_le_length)

lemma get64bits_byte1: "(ucast (drop_bit 8 (get64bits bs off)) :: byte) = bs ! (off + 1)"
  unfolding get64bits_def by (intro bit_word_eqI) (auto simp: bit_simps dest: bit_imp_le_length)

lemma get64bits_byte2: "(ucast (drop_bit 16 (get64bits bs off)) :: byte) = bs ! (off + 2)"
  unfolding get64bits_def by (intro bit_word_eqI) (auto simp: bit_simps dest: bit_imp_le_length)

lemma get64bits_byte3: "(ucast (drop_bit 24 (get64bits bs off)) :: byte) = bs ! (off + 3)"
  unfolding get64bits_def by (intro bit_word_eqI) (auto simp: bit_simps dest: bit_imp_le_length)

lemma get64bits_byte4: "(ucast (drop_bit 32 (get64bits bs off)) :: byte) = bs ! (off + 4)"
  unfolding get64bits_def by (intro bit_word_eqI) (auto simp: bit_simps dest: bit_imp_le_length)

lemma get64bits_byte5: "(ucast (drop_bit 40 (get64bits bs off)) :: byte) = bs ! (off + 5)"
  unfolding get64bits_def by (intro bit_word_eqI) (auto simp: bit_simps dest: bit_imp_le_length)

lemma get64bits_byte6: "(ucast (drop_bit 48 (get64bits bs off)) :: byte) = bs ! (off + 6)"
  unfolding get64bits_def by (intro bit_word_eqI) (auto simp: bit_simps dest: bit_imp_le_length)

lemma get64bits_byte7: "(ucast (drop_bit 56 (get64bits bs off)) :: byte) = bs ! (off + 7)"
  unfolding get64bits_def by (intro bit_word_eqI) (auto simp: bit_simps dest: bit_imp_le_length)

lemmas get64bits_bytes = get64bits_byte0 get64bits_byte1 get64bits_byte2 get64bits_byte3
  get64bits_byte4 get64bits_byte5 get64bits_byte6 get64bits_byte7

text \<open>
  Converting to big-endian and reading the memory of the result gives the big-endian
  rendering of the value.
\<close>

lemma memory_bytes32_native_to_big: "memory_bytes32 (native_to_big32 x) = big_endian32 x"
proof -
  have "memory_bytes32 (get32bits (rev (memory_bytes32 x)) 0) = rev (memory_bytes32 x)"
    unfolding memory_bytes32_def [of "get32bits _ _"] get32bits_bytes
    by (simp add: memory_bytes32_def)
  then show ?thesis
    by (simp add: native_to_big32_def memory_bytes32_def big_endian32_def)
qed

lemma memory_bytes64_native_to_big: "memory_bytes64 (native_to_big64 x) = big_endian64 x"
proof -
  have "memory_bytes64 (get64bits (rev (memory_bytes64 x)) 0) = rev (memory_bytes64 x)"
    unfolding memory_bytes64_def [of "get64bits _ _"] get64bits_bytes
    by (simp add: memory_bytes64_def)
  then show ?thesis
    by (simp add: native_to_big64_def memory_bytes64_def big_endian64_def)
qed

lemma sha_output_eq: "sha_output (length h) h = concat (map big_endian32 h)"
proof -
  have "sha_output (length h) h = concat (map (\<lambda>i. big_endian32 (h ! i)) [0..<length h])"
    by (simp add: sha_output_def big_endian32_def ucast_and_ff)
  also have "map (\<lambda>i. big_endian32 (h ! i)) [0..<length h] = map big_endian32 (map ((!) h) [0..<length h])"
    by simp
  also have "map ((!) h) [0..<length h] = h"
    by (rule map_nth)
  finally show ?thesis .
qed

lemma length_big_endian32 [simp]: "length (big_endian32 x) = 4"
  by (simp add: big_endian32_def)

lemma length_big_endian64 [simp]: "length (big_endian64 x) = 8"
  by (simp add: big_endian64_def)

lemma length_little_endian32 [simp]: "length (little_endian32 x) = 4"
  by (simp add: little_endian32_def)

lemma length_little_endian64 [simp]: "length (little_endian64 x) = 8"
  by (simp add: little_endian64_def)

lemma length_memory_bytes32 [simp]: "length (memory_bytes32 x) = 4"
  by (simp add: memory_bytes32_def)

lemma length_memory_bytes64 [simp]: "length (memory_bytes64 x) = 8"
  by (simp add: memory_bytes64_def)

lemma length_concat_fixed:
  "(\<And>x. length (f x) = k) \<Longrightarrow> length (concat (map f xs)) = k * length xs"
  by (induction xs) simp_all

section \<open>The buffering of XxHash32 and XxHash64\<close>

text \<open>The buffered bytes of the xxHash classes.\<close>

definition buffered_xx :: "'w xxhash_state \<Rightarrow> byte list" where
  "buffered_xx s = take (m_bufferSize_xx s) (m_buffer_xx s)"

lemma xx_process_blocks_absorb: "xx_process_blocks B p st c = absorb_blocks B p st c"
proof (induction B p st c rule: absorb_blocks.induct)
  case (1 B pb h xs)
  show ?case
  proof (cases "0 < B \<and> B \<le> length xs")
    case True
    with "1.IH" show ?thesis
      by (subst xx_process_blocks.simps, subst absorb_blocks.simps) simp
  next
    case False
    then show ?thesis
      by (subst xx_process_blocks.simps, subst absorb_blocks.simps) auto
  qed
qed

lemma xx_append_frame:
  "\<exists>b k. xx_append s d = s\<lparr>m_buffer_xx := b, m_bufferSize_xx := k\<rparr>"
proof (induction d arbitrary: s)
  case Nil
  show ?case
    by (rule exI [of _ "m_buffer_xx s"], rule exI [of _ "m_bufferSize_xx s"]) simp
next
  case (Cons x xs)
  let ?s = "s\<lparr>m_buffer_xx := (m_buffer_xx s)[m_bufferSize_xx s := x], m_bufferSize_xx := m_bufferSize_xx s + 1\<rparr>"
  from Cons.IH [of ?s] obtain b k where "xx_append ?s xs = ?s\<lparr>m_buffer_xx := b, m_bufferSize_xx := k\<rparr>"
    by blast
  then have "xx_append s (x # xs) = s\<lparr>m_buffer_xx := b, m_bufferSize_xx := k\<rparr>" by simp
  then show ?case by blast
qed

lemma xx_append_size: "m_bufferSize_xx (xx_append s d) = m_bufferSize_xx s + length d"
  by (induction d arbitrary: s) auto

lemma xx_append_length: "length (m_buffer_xx (xx_append s d)) = length (m_buffer_xx s)"
  by (induction d arbitrary: s) auto

lemma xx_append_buffered:
  "m_bufferSize_xx s + length d \<le> length (m_buffer_xx s) \<Longrightarrow>
   buffered_xx (xx_append s d) = buffered_xx s @ d"
proof (induction d arbitrary: s)
  case Nil
  show ?case by simp
next
  case (Cons x xs)
  let ?s = "s\<lparr>m_buffer_xx := (m_buffer_xx s)[m_bufferSize_xx s := x], m_bufferSize_xx := m_bufferSize_xx s + 1\<rparr>"
  have "buffered_xx ?s = buffered_xx s @ [x]"
    using Cons.prems by (simp add: buffered_xx_def take_update_append)
  moreover have "buffered_xx (xx_append ?s xs) = buffered_xx ?s @ xs"
    using Cons.prems by (intro Cons.IH) simp
  ultimately show ?case by simp
qed

lemma xx_fill_frame:
  "\<exists>b k. fst (xx_fill B s d) = s\<lparr>m_buffer_xx := b, m_bufferSize_xx := k\<rparr>"
proof (induction d arbitrary: s)
  case Nil
  show ?case
    by (rule exI [of _ "m_buffer_xx s"], rule exI [of _ "m_bufferSize_xx s"]) simp
next
  case (Cons x xs)
  show ?case
  proof (cases "m_bufferSize_xx s < B")
    case True
    let ?s = "s\<lparr>m_buffer_xx := (m_buffer_xx s)[m_bufferSize_xx s := x], m_bufferSize_xx := m_bufferSize_xx s + 1\<rparr>"
    from Cons.IH [of ?s] obtain b k where "fst (xx_fill B ?s xs) = ?s\<lparr>m_buffer_xx := b, m_bufferSize_xx := k\<rparr>"
      by blast
    with True have "fst (xx_fill B s (x # xs)) = s\<lparr>m_buffer_xx := b, m_bufferSize_xx := k\<rparr>" by simp
    then show ?thesis by blast
  next
    case False
    with False show ?thesis
      by (intro exI [of _ "m_buffer_xx s"] exI [of _ "m_bufferSize_xx s"]) simp
  qed
qed

lemma xx_fill_size:
  "m_bufferSize_xx s \<le> B \<Longrightarrow>
   m_bufferSize_xx (fst (xx_fill B s d)) = m_bufferSize_xx s + min (length d) (B - m_bufferSize_xx s)"
  by (induction d arbitrary: s) auto

lemma xx_fill_rest:
  "m_bufferSize_xx s \<le> B \<Longrightarrow> snd (xx_fill B s d) = drop (min (length d) (B - m_bufferSize_xx s)) d"
proof (induction d arbitrary: s)
  case Nil
  show ?case by simp
next
  case (Cons x xs)
  show ?case
  proof (cases "m_bufferSize_xx s < B")
    case True
    then have "min (length (x # xs)) (B - m_bufferSize_xx s) = Suc (min (length xs) (B - (m_bufferSize_xx s + 1)))"
      by auto
    with Cons.IH [of "s\<lparr>m_buffer_xx := (m_buffer_xx s)[m_bufferSize_xx s := x], m_bufferSize_xx := m_bufferSize_xx s + 1\<rparr>"] True
    show ?thesis by simp
  next
    case False
    with Cons.prems show ?thesis by simp
  qed
qed

lemma xx_fill_length: "length (m_buffer_xx (fst (xx_fill B s d))) = length (m_buffer_xx s)"
  by (induction d arbitrary: s) auto

lemma xx_fill_buffered:
  "m_bufferSize_xx s \<le> B \<Longrightarrow> B \<le> length (m_buffer_xx s) \<Longrightarrow>
   buffered_xx (fst (xx_fill B s d)) = buffered_xx s @ take (min (length d) (B - m_bufferSize_xx s)) d"
proof (induction d arbitrary: s)
  case Nil
  show ?case by simp
next
  case (Cons x xs)
  show ?case
  proof (cases "m_bufferSize_xx s < B")
    case True
    let ?s = "s\<lparr>m_buffer_xx := (m_buffer_xx s)[m_bufferSize_xx s := x], m_bufferSize_xx := m_bufferSize_xx s + 1\<rparr>"
    have m: "min (length (x # xs)) (B - m_bufferSize_xx s) = Suc (min (length xs) (B - (m_bufferSize_xx s + 1)))"
      using True by auto
    have "buffered_xx ?s = buffered_xx s @ [x]"
      using True Cons.prems by (simp add: buffered_xx_def take_update_append)
    moreover have "buffered_xx (fst (xx_fill B ?s xs)) =
        buffered_xx ?s @ take (min (length xs) (B - m_bufferSize_xx ?s)) xs"
      using True Cons.prems by (intro Cons.IH) simp_all
    ultimately show ?thesis using True m by simp
  next
    case False
    with Cons.prems show ?thesis by simp
  qed
qed

lemma xx_hashCore_absorb:
  assumes B: "0 < B" and n: "m_bufferSize_xx s < B" and len: "B \<le> length (m_buffer_xx s)"
  shows "m_state (xx_hashCore B p s d) = fst (absorb_blocks B p (m_state s) (buffered_xx s @ d)) \<and>
     buffered_xx (xx_hashCore B p s d) = snd (absorb_blocks B p (m_state s) (buffered_xx s @ d)) \<and>
     m_bufferSize_xx (xx_hashCore B p s d) = length (snd (absorb_blocks B p (m_state s) (buffered_xx s @ d))) \<and>
     m_totalLength (xx_hashCore B p s d) = m_totalLength s + of_nat (length d) \<and>
     length (m_buffer_xx (xx_hashCore B p s d)) = length (m_buffer_xx s) \<and>
     m_seed (xx_hashCore B p s d) = m_seed s"
proof -
  let ?r = "absorb_blocks B p (m_state s) (buffered_xx s @ d)"
  let ?t = "s\<lparr>m_totalLength := m_totalLength s + of_nat (length d)\<rparr>"
  have bl: "length (buffered_xx s) = m_bufferSize_xx s"
    using n len by (simp add: buffered_xx_def)
  have bt: "buffered_xx ?t = buffered_xx s"
    by (simp add: buffered_xx_def)
  show ?thesis
  proof (cases "m_bufferSize_xx s + length d < B")
    case True
    have r: "xx_hashCore B p s d = xx_append ?t d"
      using True by (simp add: xx_hashCore_def)
    obtain b k where fr: "xx_append ?t d = ?t\<lparr>m_buffer_xx := b, m_bufferSize_xx := k\<rparr>"
      using xx_append_frame [of ?t d] by blast
    have a: "?r = (m_state s, buffered_xx s @ d)"
      using True bl by (intro absorb_blocks_short) simp
    have "buffered_xx (xx_append ?t d) = buffered_xx s @ d"
      using xx_append_buffered [of ?t d] True len bt by simp
    moreover have "m_state (xx_append ?t d) = m_state s"
      "m_totalLength (xx_append ?t d) = m_totalLength s + of_nat (length d)"
      "m_seed (xx_append ?t d) = m_seed s"
      unfolding fr by simp_all
    ultimately show ?thesis
      unfolding r a using bl by (simp add: xx_append_size xx_append_length)
  next
    case False
    show ?thesis
    proof (cases "0 < m_bufferSize_xx s")
      case z: False
      then have e: "buffered_xx s = []" by (simp add: buffered_xx_def)
      obtain st c where pb: "xx_process_blocks B p (m_state s) d = (st, c)"
        by (cases "xx_process_blocks B p (m_state s) d") auto
      then have a: "?r = (st, c)"
        using e by (simp add: xx_process_blocks_absorb)
      have c: "length c < B"
        using absorb_blocks_rest_length [OF B, of p "m_state s" "buffered_xx s @ d"] a by simp
      have r: "xx_hashCore B p s d =
          ?t\<lparr>m_state := st, m_bufferSize_xx := length c, m_buffer_xx := c @ drop (length c) (m_buffer_xx s)\<rparr>"
        using False z pb by (simp add: xx_hashCore_def)
      show ?thesis
        unfolding r a using c len by (simp add: buffered_xx_def)
    next
      case True
      define k where "k = B - m_bufferSize_xx s"
      have kd: "k \<le> length d" "min (length d) (B - m_bufferSize_xx s) = k"
        using False n by (simp_all add: k_def)
      obtain s1 c1 where f: "xx_fill B ?t d = (s1, c1)"
        by (cases "xx_fill B ?t d") auto
      have s1: "m_bufferSize_xx s1 = B" "c1 = drop k d"
        "buffered_xx s1 = buffered_xx s @ take k d" "length (m_buffer_xx s1) = length (m_buffer_xx s)"
        using xx_fill_size [of ?t B d] xx_fill_rest [of ?t B d] xx_fill_buffered [of ?t B d]
          xx_fill_length [of B ?t d] f n len kd bt
        by (simp_all add: k_def)
      obtain b1 k1 where fr1: "s1 = ?t\<lparr>m_buffer_xx := b1, m_bufferSize_xx := k1\<rparr>"
        using xx_fill_frame [of B ?t d] f by auto
      have h1: "m_state s1 = m_state s" "m_totalLength s1 = m_totalLength s + of_nat (length d)"
        "m_seed s1 = m_seed s"
        unfolding fr1 by simp_all
      have tb: "take B (m_buffer_xx s1) = buffered_xx s @ take k d"
        using s1 by (simp add: buffered_xx_def)
      have len_all: "B \<le> length (buffered_xx s @ d)"
        using bl False by simp
      have tk: "take B (buffered_xx s @ d) = buffered_xx s @ take k d" "drop B (buffered_xx s @ d) = drop k d"
        using bl n by (simp_all add: k_def)
      have step: "?r = absorb_blocks B p (p (m_state s) (buffered_xx s @ take k d)) (drop k d)"
        using absorb_blocks_step [OF B len_all, of p "m_state s"] tk by simp
      obtain st c where pb: "xx_process_blocks B p (p (m_state s) (buffered_xx s @ take k d)) (drop k d) = (st, c)"
        by (cases "xx_process_blocks B p (p (m_state s) (buffered_xx s @ take k d)) (drop k d)") auto
      then have a: "?r = (st, c)"
        unfolding step by (simp add: xx_process_blocks_absorb)
      have c: "length c < B"
        using absorb_blocks_rest_length [OF B, of p "m_state s" "buffered_xx s @ d"] a by simp
      have r: "xx_hashCore B p s d =
          s1\<lparr>m_state := st, m_bufferSize_xx := length c, m_buffer_xx := c @ drop (length c) (m_buffer_xx s1)\<rparr>"
        using False True f pb h1 tb s1 by (simp add: xx_hashCore_def)
      show ?thesis
        unfolding r a using c len s1 h1 by (simp add: buffered_xx_def)
    qed
  qed
qed

lemma foldl_xx_hashCore:
  assumes B: "0 < B"
  shows "m_bufferSize_xx s < B \<Longrightarrow> B \<le> length (m_buffer_xx s) \<Longrightarrow>
    m_state (foldl (xx_hashCore B p) s cs) = fst (absorb_blocks B p (m_state s) (buffered_xx s @ concat cs)) \<and>
    buffered_xx (foldl (xx_hashCore B p) s cs) = snd (absorb_blocks B p (m_state s) (buffered_xx s @ concat cs)) \<and>
    m_bufferSize_xx (foldl (xx_hashCore B p) s cs) =
      length (snd (absorb_blocks B p (m_state s) (buffered_xx s @ concat cs))) \<and>
    m_totalLength (foldl (xx_hashCore B p) s cs) = m_totalLength s + of_nat (length (concat cs)) \<and>
    length (m_buffer_xx (foldl (xx_hashCore B p) s cs)) = length (m_buffer_xx s) \<and>
    m_seed (foldl (xx_hashCore B p) s cs) = m_seed s"
proof (induction cs arbitrary: s)
  case Nil
  then have "absorb_blocks B p (m_state s) (buffered_xx s) = (m_state s, buffered_xx s)"
    by (intro absorb_blocks_short) (simp add: buffered_xx_def)
  with Nil show ?case by (simp add: buffered_xx_def)
next
  case (Cons c cs)
  let ?t = "xx_hashCore B p s c"
  let ?r1 = "absorb_blocks B p (m_state s) (buffered_xx s @ c)"
  note t = xx_hashCore_absorb [OF B Cons.prems, of p c]
  have r1: "length (snd ?r1) < B"
    using B by (rule absorb_blocks_rest_length)
  have tinv: "m_bufferSize_xx ?t < B" "B \<le> length (m_buffer_xx ?t)"
    using t r1 Cons.prems by simp_all
  have app: "absorb_blocks B p (m_state s) (buffered_xx s @ concat (c # cs)) =
      absorb_blocks B p (fst ?r1) (snd ?r1 @ concat cs)"
    using absorb_blocks_append [of B p "m_state s" "buffered_xx s @ c" "concat cs"] by simp
  from Cons.IH [OF tinv] t app show ?case
    by (simp add: add.assoc)
qed

section \<open>Sizes that the calls preserve\<close>

lemma length_fold_update: "length (fold (\<lambda>i b. b[f i := v i b]) xs b) = length b"
  by (induction xs arbitrary: b) simp_all

lemma length_write_bytes [simp]: "length (write_bytes buf p xs) = length buf"
  by (induction xs arbitrary: buf p) simp_all

lemma md_processBuffer_from_frame:
  "\<exists>b h. md_processBuffer_from lb pb e s = s\<lparr>m_buffer := b, m_hash := h\<rparr> \<and> length b = length (m_buffer s)"
proof -
  define n where "n = m_bufferSize s"
  define pl where "pl = (if (n * 8 + 1) mod 512 \<le> 448 then n * 8 + 1 + (448 - (n * 8 + 1) mod 512)
        else n * 8 + 1 + (512 + 448 - (n * 8 + 1) mod 512)) div 8"
  define b0 where "b0 = (if n < 64 then (m_buffer s)[n := 128] else m_buffer s)"
  define e0 where "e0 = (if n < 64 then e else e[0 := 128])"
  define b1 where "b1 = fold (\<lambda>i b. b[i := 0]) [n + 1 ..< 64] b0"
  define e1 where "e1 = fold (\<lambda>i e. e[i - 64 := 0]) [max (n + 1) 64 ..< pl] e0"
  define m where "m = 8 * (m_numBytes s + of_nat n)"
  define b2 where "b2 = (if pl < 64 then write_bytes b1 pl (lb m) else b1)"
  define e2 where "e2 = (if pl < 64 then e1 else write_bytes e1 (pl - 64) (lb m))"
  define h1 where "h1 = pb (m_hash s) (take 64 b2)"
  define h2 where "h2 = (if 64 < pl then pb h1 (take 64 e2) else h1)"
  have "md_processBuffer_from lb pb e s = s\<lparr>m_buffer := b2, m_hash := h2\<rparr>"
    unfolding md_processBuffer_from_def Let_def h2_def h1_def e2_def b2_def m_def e1_def b1_def e0_def b0_def
      pl_def n_def
    by (rule refl)
  moreover have "length b2 = length (m_buffer s)"
    unfolding b2_def b1_def b0_def
    by (simp add: length_fold_update [where f = "\<lambda>i. i" and v = "\<lambda>i b. 0"])
  ultimately show ?thesis by blast
qed

section \<open>The invariant of the buffers\<close>

text \<open>
  The invariant of the block engine and of the xxHash buffer: the fill level is below the
  block size, and the block size is within the array.
\<close>

definition block_invariant :: "nat \<Rightarrow> ('w, 'm) block_state_scheme \<Rightarrow> bool" where
  "block_invariant B s \<longleftrightarrow> 0 < B \<and> m_bufferSize s < B \<and> B \<le> length (m_buffer s)"

definition xx_invariant :: "nat \<Rightarrow> 'w xxhash_state \<Rightarrow> bool" where
  "xx_invariant B s \<longleftrightarrow> 0 < B \<and> m_bufferSize_xx s < B \<and> B \<le> length (m_buffer_xx s)"

lemma block_hashCore_invariant:
  "block_invariant B s \<Longrightarrow> block_invariant B (block_hashCore B pb s d)"
  unfolding block_invariant_def
  using block_hashCore_absorb(3,5) [of B s pb d] absorb_blocks_rest_length [of B pb "m_hash s" "buffered s @ d"]
  by simp

lemma xx_hashCore_invariant:
  "xx_invariant B s \<Longrightarrow> xx_invariant B (xx_hashCore B p s d)"
  unfolding xx_invariant_def
  using xx_hashCore_absorb [of B s p d] absorb_blocks_rest_length [of B p "m_state s" "buffered_xx s @ d"]
  by simp

lemma md_processBuffer_invariant:
  "block_invariant B s \<Longrightarrow> block_invariant B ((md_processBuffer lb pb s)\<lparr>m_hash := h\<rparr>)"
proof -
  assume i: "block_invariant B s"
  obtain b h' where "md_processBuffer lb pb s = s\<lparr>m_buffer := b, m_hash := h'\<rparr>" "length b = length (m_buffer s)"
    unfolding md_processBuffer_def using md_processBuffer_from_frame by blast
  with i show ?thesis by (simp add: block_invariant_def)
qed

lemma Md5_invariant:
  "block_invariant 64 (Md5_initialize s) \<longleftrightarrow> 64 \<le> length (m_buffer s)"
  "block_invariant 64 s \<Longrightarrow> block_invariant 64 (Md5_hashCore s d)"
  "block_invariant 64 s \<Longrightarrow> block_invariant 64 (snd (Md5_hashFinal s))"
  by (simp_all add: Md5_initialize_def block_invariant_def [of _ "_\<lparr>m_hashValue := _, m_numBytes := _, m_bufferSize := _, m_hash := _\<rparr>"]
      Md5_hashCore_def block_hashCore_invariant Md5_hashFinal_def Md5_processBuffer_def Let_def
      md_processBuffer_invariant)

lemma Sha1_invariant:
  "block_invariant 64 (Sha1_initialize s) \<longleftrightarrow> 64 \<le> length (m_buffer s)"
  "block_invariant 64 s \<Longrightarrow> block_invariant 64 (Sha1_hashCore s d)"
  "block_invariant 64 s \<Longrightarrow> block_invariant 64 (snd (Sha1_hashFinal s))"
  by (simp_all add: Sha1_initialize_def block_invariant_def [of _ "_\<lparr>m_hashValue := _, m_numBytes := _, m_bufferSize := _, m_hash := _\<rparr>"]
      Sha1_hashCore_def block_hashCore_invariant Sha1_hashFinal_def Sha1_processBuffer_def Let_def
      md_processBuffer_invariant)

lemma Sha256_invariant:
  "block_invariant 64 (Sha256_initialize s) \<longleftrightarrow> 64 \<le> length (m_buffer s)"
  "block_invariant 64 s \<Longrightarrow> block_invariant 64 (Sha256_hashCore s d)"
  "block_invariant 64 s \<Longrightarrow> block_invariant 64 (snd (Sha256_hashFinal s))"
  by (simp_all add: Sha256_initialize_def block_invariant_def [of _ "_\<lparr>m_hashValue := _, m_numBytes := _, m_bufferSize := _, m_hash := _\<rparr>"]
      Sha256_hashCore_def block_hashCore_invariant Sha256_hashFinal_def Sha256_processBuffer_def Let_def
      md_processBuffer_invariant)

text \<open>The invariant of a Sha3 instance includes the block size that the constructor has set.\<close>

definition sha3_invariant :: "Sha3Bits \<Rightarrow> sha3_state \<Rightarrow> bool" where
  "sha3_invariant bits s \<longleftrightarrow>
     m_bits s = bits \<and> m_blockSize s = 200 - 2 * (enumToIntegral bits div 8) \<and>
     block_invariant (m_blockSize s) s"

lemma Sha3_blockSize_pos: "0 < 200 - 2 * (enumToIntegral bits div 8)"
  and Sha3_blockSize_le: "200 - 2 * (enumToIntegral bits div 8) \<le> 144"
  by (cases bits; simp)+

lemma Sha3_hashCore_frame:
  "m_blockSize (Sha3_hashCore s d) = m_blockSize s \<and> m_bits (Sha3_hashCore s d) = m_bits s"
proof -
  obtain h n k b where "block_hashCore (m_blockSize s) (Sha3_processBlock (m_blockSize s)) s d =
      s\<lparr>m_hash := h, m_numBytes := n, m_bufferSize := k, m_buffer := b\<rparr>"
    using block_hashCore_frame [of "m_blockSize s" "Sha3_processBlock (m_blockSize s)" s d] by blast
  then show ?thesis by (simp add: Sha3_hashCore_def)
qed

lemma Sha3_invariant:
  "sha3_invariant bits (Sha3 bits)"
  "sha3_invariant bits s \<Longrightarrow> sha3_invariant bits (Sha3_initialize s)"
  "sha3_invariant bits s \<Longrightarrow> sha3_invariant bits (Sha3_hashCore s d)"
  "sha3_invariant bits s \<Longrightarrow> sha3_invariant bits (snd (Sha3_hashFinal s))"
proof -
  show "sha3_invariant bits (Sha3 bits)"
    using Sha3_blockSize_pos [of bits] Sha3_blockSize_le [of bits]
    by (simp add: sha3_invariant_def Sha3_def Sha3_initialize_def block_invariant_def)
  show "sha3_invariant bits s \<Longrightarrow> sha3_invariant bits (Sha3_initialize s)"
    using Sha3_blockSize_pos [of bits]
    by (simp add: sha3_invariant_def Sha3_initialize_def block_invariant_def)
  show "sha3_invariant bits (Sha3_hashCore s d)" if i: "sha3_invariant bits s"
  proof -
    from i have b: "m_bits s = bits" "m_blockSize s = 200 - 2 * (enumToIntegral bits div 8)"
      "block_invariant (m_blockSize s) s"
      unfolding sha3_invariant_def by blast+
    have "block_invariant (m_blockSize s) (Sha3_hashCore s d)"
      unfolding Sha3_hashCore_def using b(3) by (rule block_hashCore_invariant)
    with Sha3_hashCore_frame [of s d] b(1,2) show ?thesis
      by (simp add: sha3_invariant_def)
  qed
  show "sha3_invariant bits s \<Longrightarrow> sha3_invariant bits (snd (Sha3_hashFinal s))"
    using Sha3_blockSize_pos [of bits]
    by (simp add: sha3_invariant_def Sha3_hashFinal_def Sha3_processBuffer_def Let_def block_invariant_def
        length_fold_update [where f = "\<lambda>i. i" and v = "\<lambda>i b. 0"])
qed

lemma XxHash32_invariant:
  "xx_invariant 16 (XxHash32_initialize s) \<longleftrightarrow> 16 \<le> length (m_buffer_xx s)"
  "xx_invariant 16 s \<Longrightarrow> xx_invariant 16 (XxHash32_hashCore s d)"
  "xx_invariant 16 s \<Longrightarrow> xx_invariant 16 (snd (XxHash32_hashFinal s))"
  by (simp_all add: XxHash32_initialize_def xx_invariant_def [of _ "_\<lparr>m_state := _, m_bufferSize_xx := _, m_totalLength := _, m_hashValue := _, m_buffer_xx := _\<rparr>"]
      XxHash32_hashCore_def xx_hashCore_invariant XxHash32_hashFinal_def Let_def split: prod.splits)

lemma XxHash64_invariant:
  "xx_invariant 32 (XxHash64_initialize s) \<longleftrightarrow> 32 \<le> length (m_buffer_xx s)"
  "xx_invariant 32 s \<Longrightarrow> xx_invariant 32 (XxHash64_hashCore s d)"
  "xx_invariant 32 s \<Longrightarrow> xx_invariant 32 (snd (XxHash64_hashFinal s))"
  by (simp_all add: XxHash64_initialize_def xx_invariant_def [of _ "_\<lparr>m_state := _, m_bufferSize_xx := _, m_totalLength := _, m_hashValue := _, m_buffer_xx := _\<rparr>"]
      XxHash64_hashCore_def xx_hashCore_invariant XxHash64_hashFinal_def Let_def split: prod.splits)

lemma block_invariant_length: "block_invariant B s \<Longrightarrow> B \<le> length (m_buffer s)"
  by (simp add: block_invariant_def)

lemma xx_invariant_length: "xx_invariant B s \<Longrightarrow> B \<le> length (m_buffer_xx s)"
  by (simp add: xx_invariant_def)

lemma operate_invariant:
  assumes "\<And>s. I s \<Longrightarrow> I (initialize v s)"
    and "\<And>s d. I s \<Longrightarrow> I (hashCore v s d)"
    and "\<And>s. I s \<Longrightarrow> I (snd (hashFinal v s))"
    and "\<And>s x. I s \<Longrightarrow> I (s\<lparr>m_hashValue := x\<rparr>)"
  shows "I s \<Longrightarrow> I (foldl (operate v) s cs)"
proof (induction cs arbitrary: s)
  case Nil
  then show ?case by simp
next
  case (Cons c cs)
  have "I (operate v s c)"
  proof (cases c)
    case Initialize
    with Cons.prems assms(1) show ?thesis by (simp add: operate_def)
  next
    case (HashCore d)
    with Cons.prems assms(2) show ?thesis by (simp add: operate_def)
  next
    case HashFinal
    with Cons.prems assms(3) show ?thesis by (simp add: operate_def)
  next
    case (ComputeHash d)
    have "I (snd (hashFinal v (hashCore v (initialize v s) d)))"
      using Cons.prems assms(1,2,3) by simp
    then have "I ((snd (hashFinal v (hashCore v (initialize v s) d)))
        \<lparr>m_hashValue := fst (hashFinal v (hashCore v (initialize v s) d))\<rparr>)"
      by (rule assms(4))
    with ComputeHash show ?thesis
      by (simp add: operate_def computeHash_def computeHashInternal_def Let_def case_prod_beta)
  qed
  then show ?case using Cons.IH by simp
qed

lemma block_invariant_hashValue [simp]:
  "block_invariant B (s\<lparr>m_hashValue := x\<rparr>) = block_invariant B s"
  by (simp add: block_invariant_def)

lemma sha3_invariant_hashValue [simp]:
  "sha3_invariant bits (s\<lparr>m_hashValue := x\<rparr>) = sha3_invariant bits s"
  by (simp add: sha3_invariant_def)

lemma xx_invariant_hashValue [simp]:
  "xx_invariant B (s\<lparr>m_hashValue := x\<rparr>) = xx_invariant B s"
  by (simp add: xx_invariant_def)

text \<open>
  Claim C9.  For the six classes with a buffer, let the members of an instance hold any
  values whatever, the arrays having their declared sizes (and, for Sha3, \<^verbatim>\<open>m_blockSize\<close>
  the value that the constructor computes from the digest width).  After \<^verbatim>\<open>initialize\<close>,
  and after any sequence of \<^verbatim>\<open>initialize\<close>, \<^verbatim>\<open>hashCore\<close> with data of any length,
  \<^verbatim>\<open>hashFinal\<close> and \<^verbatim>\<open>computeHash\<close> that follows it, the fill level \<^verbatim>\<open>m_bufferSize\<close> is
  below the block size: 64 for Md5, Sha1 and Sha256, \<^verbatim>\<open>m_blockSize\<close> for Sha3 (which stays
  the value of the constructor), 16 for XxHash32 and 32 for XxHash64.  The fill level is an
  unsigned integer, so it is never negative.  The constructors call \<^verbatim>\<open>initialize\<close>, so the
  instances they make are covered.
\<close>

theorem bufferSize_below_blockSize:
  assumes "length (m_buffer md5) = 64" and "length (m_buffer sha1) = 64"
    and "length (m_buffer sha256) = 64"
    and "length (m_buffer sha3) = 144"
    and "m_blockSize sha3 = 200 - 2 * (enumToIntegral (m_bits sha3) div 8)"
    and "length (m_buffer_xx xx32) = 16" and "length (m_buffer_xx xx64) = 32"
  shows
  "m_bufferSize (foldl (operate Md5_virtuals) (Md5_initialize md5) calls) < 64 \<and>
   m_bufferSize (foldl (operate Sha1_virtuals) (Sha1_initialize sha1) calls) < 64 \<and>
   m_bufferSize (foldl (operate Sha256_virtuals) (Sha256_initialize sha256) calls) < 64 \<and>
   m_bufferSize (foldl (operate Sha3_virtuals) (Sha3_initialize sha3) calls)
     < m_blockSize (foldl (operate Sha3_virtuals) (Sha3_initialize sha3) calls) \<and>
   m_blockSize (foldl (operate Sha3_virtuals) (Sha3_initialize sha3) calls)
     = 200 - 2 * (enumToIntegral (m_bits sha3) div 8) \<and>
   m_bufferSize_xx (foldl (operate XxHash32_virtuals) (XxHash32_initialize xx32) calls) < 16 \<and>
   m_bufferSize_xx (foldl (operate XxHash64_virtuals) (XxHash64_initialize xx64) calls) < 32"
proof -
  have "block_invariant 64 (Md5_initialize md5)"
    using assms(1) by (simp add: Md5_invariant)
  then have "block_invariant 64 (foldl (operate Md5_virtuals) (Md5_initialize md5) calls)"
    by (rule operate_invariant [rotated -1]) (simp_all add: Md5_virtuals_def Md5_invariant block_invariant_length)
  moreover have "block_invariant 64 (Sha1_initialize sha1)"
    using assms(2) by (simp add: Sha1_invariant)
  then have "block_invariant 64 (foldl (operate Sha1_virtuals) (Sha1_initialize sha1) calls)"
    by (rule operate_invariant [rotated -1]) (simp_all add: Sha1_virtuals_def Sha1_invariant block_invariant_length)
  moreover have "block_invariant 64 (Sha256_initialize sha256)"
    using assms(3) by (simp add: Sha256_invariant)
  then have "block_invariant 64 (foldl (operate Sha256_virtuals) (Sha256_initialize sha256) calls)"
    by (rule operate_invariant [rotated -1]) (simp_all add: Sha256_virtuals_def Sha256_invariant block_invariant_length)
  moreover have "sha3_invariant (m_bits sha3) (Sha3_initialize sha3)"
    using assms(4,5) Sha3_blockSize_pos [of "m_bits sha3"] Sha3_blockSize_le [of "m_bits sha3"]
    by (simp add: sha3_invariant_def Sha3_initialize_def block_invariant_def)
  then have "sha3_invariant (m_bits sha3) (foldl (operate Sha3_virtuals) (Sha3_initialize sha3) calls)"
    by (rule operate_invariant [rotated -1]) (simp_all add: Sha3_virtuals_def Sha3_invariant)
  moreover have "xx_invariant 16 (XxHash32_initialize xx32)"
    using assms(6) by (simp add: XxHash32_invariant)
  then have "xx_invariant 16 (foldl (operate XxHash32_virtuals) (XxHash32_initialize xx32) calls)"
    by (rule operate_invariant [rotated -1]) (simp_all add: XxHash32_virtuals_def XxHash32_invariant xx_invariant_length)
  moreover have "xx_invariant 32 (XxHash64_initialize xx64)"
    using assms(7) by (simp add: XxHash64_invariant)
  then have "xx_invariant 32 (foldl (operate XxHash64_virtuals) (XxHash64_initialize xx64) calls)"
    by (rule operate_invariant [rotated -1]) (simp_all add: XxHash64_virtuals_def XxHash64_invariant xx_invariant_length)
  ultimately show ?thesis
    unfolding block_invariant_def sha3_invariant_def xx_invariant_def by simp
qed

text \<open>
  The theorem at instances whose fill level holds a value beyond the block size before
  \<^verbatim>\<open>initialize\<close>, followed by the calls \<^verbatim>\<open>hashCore\<close> (70 bytes), \<^verbatim>\<open>hashFinal\<close>, \<^verbatim>\<open>hashCore\<close>
  (3 bytes).
\<close>

theorem bufferSize_below_blockSize_witness:
  "\<not> m_bufferSize (Md5\<lparr>m_bufferSize := 99\<rparr>) < 64 \<and>
   \<not> m_bufferSize (Sha3 Bits256\<lparr>m_bufferSize := 200\<rparr>) < m_blockSize (Sha3 Bits256\<lparr>m_bufferSize := 200\<rparr>) \<and>
   \<not> m_bufferSize_xx (XxHash32 0\<lparr>m_bufferSize_xx := 16\<rparr>) < 16 \<and>
   m_bufferSize (foldl (operate Md5_virtuals) (Md5_initialize (Md5\<lparr>m_bufferSize := 99\<rparr>))
      [HashCore (replicate 70 0x61), HashFinal, HashCore [0x62, 0x63, 0x64]]) < 64 \<and>
   m_bufferSize (foldl (operate Sha1_virtuals) (Sha1_initialize (Sha1\<lparr>m_bufferSize := 64\<rparr>))
      [HashCore (replicate 70 0x61), HashFinal, HashCore [0x62, 0x63, 0x64]]) < 64 \<and>
   m_bufferSize (foldl (operate Sha256_virtuals) (Sha256_initialize (Sha256\<lparr>m_bufferSize := 64\<rparr>))
      [HashCore (replicate 70 0x61), HashFinal, HashCore [0x62, 0x63, 0x64]]) < 64 \<and>
   m_bufferSize (foldl (operate Sha3_virtuals) (Sha3_initialize (Sha3 Bits256\<lparr>m_bufferSize := 200\<rparr>))
      [HashCore (replicate 70 0x61), HashFinal, HashCore [0x62, 0x63, 0x64]])
     < m_blockSize (foldl (operate Sha3_virtuals) (Sha3_initialize (Sha3 Bits256\<lparr>m_bufferSize := 200\<rparr>))
      [HashCore (replicate 70 0x61), HashFinal, HashCore [0x62, 0x63, 0x64]]) \<and>
   m_blockSize (foldl (operate Sha3_virtuals) (Sha3_initialize (Sha3 Bits256\<lparr>m_bufferSize := 200\<rparr>))
      [HashCore (replicate 70 0x61), HashFinal, HashCore [0x62, 0x63, 0x64]]) = 136 \<and>
   m_bufferSize_xx (foldl (operate XxHash32_virtuals) (XxHash32_initialize (XxHash32 0\<lparr>m_bufferSize_xx := 16\<rparr>))
      [HashCore (replicate 70 0x61), HashFinal, HashCore [0x62, 0x63, 0x64]]) < 16 \<and>
   m_bufferSize_xx (foldl (operate XxHash64_virtuals) (XxHash64_initialize (XxHash64 0\<lparr>m_bufferSize_xx := 77\<rparr>))
      [HashCore (replicate 70 0x61), HashFinal, HashCore [0x62, 0x63, 0x64]]) < 32"
proof -
  have l: "length (m_buffer (Md5\<lparr>m_bufferSize := 99\<rparr>)) = 64"
    "length (m_buffer (Sha1\<lparr>m_bufferSize := 64\<rparr>)) = 64"
    "length (m_buffer (Sha256\<lparr>m_bufferSize := 64\<rparr>)) = 64"
    "length (m_buffer (Sha3 Bits256\<lparr>m_bufferSize := 200\<rparr>)) = 144"
    "m_blockSize (Sha3 Bits256\<lparr>m_bufferSize := 200\<rparr>)
       = 200 - 2 * (enumToIntegral (m_bits (Sha3 Bits256\<lparr>m_bufferSize := 200\<rparr>)) div 8)"
    "length (m_buffer_xx (XxHash32 0\<lparr>m_bufferSize_xx := 16\<rparr>)) = 16"
    "length (m_buffer_xx (XxHash64 0\<lparr>m_bufferSize_xx := 77\<rparr>)) = 32"
    by (simp_all add: Md5_def Md5_initialize_def Sha1_def Sha1_initialize_def Sha256_def
        Sha256_initialize_def Sha3_def Sha3_initialize_def XxHash32_def XxHash32_initialize_def
        XxHash64_def XxHash64_initialize_def)
  have b: "m_bits (Sha3 Bits256\<lparr>m_bufferSize := 200\<rparr>) = Bits256"
    "m_blockSize (Sha3 Bits256\<lparr>m_bufferSize := 200\<rparr>) = 136"
    by (simp_all add: Sha3_def Sha3_initialize_def)
  have n: "\<not> m_bufferSize (Md5\<lparr>m_bufferSize := 99\<rparr>) < 64"
    "\<not> m_bufferSize (Sha3 Bits256\<lparr>m_bufferSize := 200\<rparr>) < m_blockSize (Sha3 Bits256\<lparr>m_bufferSize := 200\<rparr>)"
    "\<not> m_bufferSize_xx (XxHash32 0\<lparr>m_bufferSize_xx := 16\<rparr>) < 16"
    by (simp_all add: b)
  show ?thesis
    using bufferSize_below_blockSize [OF l,
        of "[HashCore (replicate 70 0x61), HashFinal, HashCore [0x62, 0x63, 0x64]]"] n
    unfolding b by simp
qed

section \<open>The sizes of the register files\<close>

lemma length_Let: "(\<And>x. length (f x) = n) \<Longrightarrow> length (Let a f) = n"
  by simp

lemma length_case_prod: "(\<And>a b. length (f a b) = n) \<Longrightarrow> length (case_prod f p) = n"
  by (cases p) simp

lemma length_Md5_processBlock [simp]: "length (Md5_processBlock h data) = 4"
  unfolding Md5_processBlock_def by (intro length_Let) simp

lemma length_Sha1_processBlock [simp]: "length (Sha1_processBlock h data) = 5"
  unfolding Sha1_processBlock_def by (intro length_Let length_case_prod) simp

lemma length_Sha256_processBlock [simp]: "length (Sha256_processBlock h data) = 8"
  unfolding Sha256_processBlock_def by (intro length_Let) simp

lemma length_fold_preserve:
  "(\<And>x h. length (f x h) = length h) \<Longrightarrow> length (fold f xs h) = length h"
  by (induction xs arbitrary: h) simp_all

lemma length_Sha3_theta [simp]: "length (Sha3_theta h) = length h"
  unfolding Sha3_theta_def Let_def by (rule length_fold_preserve) simp

lemma length_Sha3_rho_pi [simp]: "length (Sha3_rho_pi h) = length h"
proof -
  have "length (fst (fold (\<lambda>(j, r) (h, last'). (h[j := rotateLeft64 last' r], h ! j)) xs (h, l))) = length h"
    for xs :: "(nat \<times> nat) list" and l
    by (induction xs arbitrary: h l) (simp_all add: case_prod_beta)
  then show ?thesis
    unfolding Sha3_rho_pi_def by (simp add: case_prod_beta)
qed

lemma length_Sha3_chi [simp]: "length (Sha3_chi h) = length h"
  unfolding Sha3_chi_def Let_def by (rule length_fold_preserve) simp

lemma length_Sha3_round [simp]: "length (Sha3_round r h) = length h"
  by (simp add: Sha3_round_def Sha3_iota_def)

lemma length_Sha3_processBlock [simp]: "length (Sha3_processBlock B h data) = length h"
  unfolding Sha3_processBlock_def
  by (simp add: length_fold_preserve)

section \<open>hashFinal of Md5, Sha1 and Sha256 and the state it leaves\<close>

lemma md_processBuffer_from_buffered:
  assumes n: "m_bufferSize s < 64" and len: "length (m_buffer s) = 64" and lb: "\<And>m. length (lb m) = 8"
  shows "buffered (md_processBuffer_from lb pb extra0 s) = buffered s"
proof -
  let ?n = "m_bufferSize s"
  let ?m = "8 * (m_numBytes s + of_nat ?n)"
  let ?b1 = "fold (\<lambda>i b. b[i := 0]) [?n + 1 ..< 64] ((m_buffer s)[?n := 128])"
  have bl: "length (buffered s) = ?n"
    using n len by (simp add: buffered_def)
  have b1: "?b1 = buffered s @ [0x80] @ replicate (63 - ?n) 0"
    using n len by (simp add: fold_update_const take_update_append buffered_def)
  have l1: "length ?b1 = 64"
    unfolding b1 using n bl by simp
  have t1: "take ?n ?b1 = buffered s"
    unfolding b1 using bl by simp
  have sz: "m_bufferSize (md_processBuffer_from lb pb extra0 s) = ?n"
    by (simp add: md_processBuffer_from_def Let_def)
  show ?thesis
  proof (cases "?n < 56")
    case True
    then have pl: "(?n * 8 + 1) mod 512 = ?n * 8 + 1" "?n * 8 + 1 \<le> 448"
      "(?n * 8 + 1 + (448 - (?n * 8 + 1))) div 8 = 56"
      by simp_all
    have "take ?n (write_bytes ?b1 56 (lb ?m)) = take ?n (take 56 ?b1)"
      using l1 lb True by (simp add: write_bytes_eq)
    also have "\<dots> = buffered s"
      using True t1 by (simp add: min_def)
    finally have "take ?n (write_bytes ?b1 56 (lb ?m)) = buffered s" .
    then show ?thesis
      unfolding buffered_def [of "md_processBuffer_from lb pb extra0 s"] sz
      using True n pl by (simp add: md_processBuffer_from_def Let_def)
  next
    case False
    then have pl: "(?n * 8 + 1) mod 512 = ?n * 8 + 1" "\<not> ?n * 8 + 1 \<le> 448"
      "(?n * 8 + 1 + (512 + 448 - (?n * 8 + 1))) div 8 = 120"
      using n by simp_all
    show ?thesis
      unfolding buffered_def [of "md_processBuffer_from lb pb extra0 s"] sz
      using False n pl t1 by (simp add: md_processBuffer_from_def Let_def)
  qed
qed

lemma md_processBuffer_from_fields:
  "m_numBytes (md_processBuffer_from lb pb extra0 s) = m_numBytes s"
  "m_bufferSize (md_processBuffer_from lb pb extra0 s) = m_bufferSize s"
  "m_hashValue (md_processBuffer_from lb pb extra0 s) = m_hashValue s"
  by (simp_all add: md_processBuffer_from_def Let_def)

text \<open>
  The content of the uninitialised array \<^verbatim>\<open>extra\<close> at entry has no influence on the
  registers that \<^verbatim>\<open>processBuffer\<close> computes.
\<close>

lemma md_processBuffer_from_independent:
  assumes "m_bufferSize s < 64" and "length (m_buffer s) = 64" and "\<And>m. length (lb m) = 8"
    and "length e1 = 64" and "length e2 = 64"
  shows "m_hash (md_processBuffer_from lb pb e1 s) = m_hash (md_processBuffer_from lb pb e2 s)"
  using assms by (simp add: md_processBuffer_from_hash)

text \<open>
  The state that \<^verbatim>\<open>hashFinal\<close> leaves: \<^verbatim>\<open>m_buffer\<close> is rewritten behind the buffered bytes
  and nothing else has changed.
\<close>

lemma md_hashFinal_state:
  fixes pb :: "u32 list \<Rightarrow> byte list \<Rightarrow> u32 list"
  assumes "block_invariant 64 s" and len: "length (m_buffer s) = 64" and lb: "\<And>m. length (lb m) = 8"
  defines "t \<equiv> (md_processBuffer lb pb s)\<lparr>m_hash := m_hash s\<rparr>"
  shows "m_hash t = m_hash s" and "m_numBytes t = m_numBytes s" and "m_bufferSize t = m_bufferSize s"
    and "buffered t = buffered s" and "length (m_buffer t) = 64" and "block_invariant 64 t"
    and "m_hashValue t = m_hashValue s"
proof -
  have n: "m_bufferSize s < 64" using assms(1) by (simp add: block_invariant_def)
  obtain b h where fr: "md_processBuffer lb pb s = s\<lparr>m_buffer := b, m_hash := h\<rparr>" "length b = length (m_buffer s)"
    unfolding md_processBuffer_def using md_processBuffer_from_frame by blast
  have b: "buffered (md_processBuffer lb pb s) = buffered s"
    unfolding md_processBuffer_def using n len lb by (rule md_processBuffer_from_buffered)
  show "m_hash t = m_hash s" "m_numBytes t = m_numBytes s" "m_bufferSize t = m_bufferSize s"
    "m_hashValue t = m_hashValue s"
    unfolding t_def fr by simp_all
  show "buffered t = buffered s"
    using b unfolding t_def by (simp add: buffered_def)
  show "length (m_buffer t) = 64"
    unfolding t_def fr using fr(2) len by simp
  then show "block_invariant 64 t"
    using n unfolding t_def fr by (simp add: block_invariant_def)
qed

text \<open>The registers after the padding depend on the registers, the byte count and the buffered bytes only.\<close>

lemma md_processBuffer_hash:
  assumes "block_invariant 64 s" and "length (m_buffer s) = 64" and "\<And>m. length (lb m) = 8"
  shows "m_hash (md_processBuffer lb pb s) = md_padding_result lb pb (m_hash s) (m_numBytes s) (buffered s)"
  unfolding md_processBuffer_def
  using assms by (intro md_processBuffer_from_hash) (simp_all add: block_invariant_def)

lemma length_Md5_length_bytes [simp]: "length (Md5_length_bytes m) = 8"
  by (simp add: Md5_length_bytes_def)

lemma length_Sha_length_bytes [simp]: "length (Sha_length_bytes m) = 8"
  by (simp add: Sha_length_bytes_def)

lemma length_md_padding_result:
  "(\<And>h d. length (pb h d) = k) \<Longrightarrow> length (md_padding_result lb pb h n p) = k"
  by (simp add: md_padding_result_def Let_def)

lemma Md5_hashFinal_digest:
  assumes "block_invariant 64 s" and "length (m_buffer s) = 64"
  shows "fst (Md5_hashFinal s) =
     concat (map little_endian32
       (md_padding_result Md5_length_bytes Md5_processBlock (m_hash s) (m_numBytes s) (buffered s)))"
proof -
  let ?h = "md_padding_result Md5_length_bytes Md5_processBlock (m_hash s) (m_numBytes s) (buffered s)"
  have "length (concat (map memory_bytes32 ?h)) = 16"
    by (simp add: length_concat_fixed length_md_padding_result)
  then show ?thesis
    using assms
    by (simp add: Md5_hashFinal_def Md5_processBuffer_def md_processBuffer_hash Let_def Md5_hashSize_def
        memory_bytes32_little_endian [abs_def])
qed

lemma Sha1_hashFinal_digest:
  assumes "block_invariant 64 s" and "length (m_buffer s) = 64"
  shows "fst (Sha1_hashFinal s) =
     concat (map big_endian32
       (md_padding_result Sha_length_bytes Sha1_processBlock (m_hash s) (m_numBytes s) (buffered s)))"
proof -
  let ?h = "md_padding_result Sha_length_bytes Sha1_processBlock (m_hash s) (m_numBytes s) (buffered s)"
  have "length ?h = 5"
    by (simp add: length_md_padding_result)
  then have "sha_output 5 ?h = concat (map big_endian32 ?h)"
    using sha_output_eq [of ?h] by simp
  then show ?thesis
    using assms
    by (simp add: Sha1_hashFinal_def Sha1_processBuffer_def md_processBuffer_hash Let_def)
qed

lemma Sha256_hashFinal_digest:
  assumes "block_invariant 64 s" and "length (m_buffer s) = 64"
  shows "fst (Sha256_hashFinal s) =
     concat (map big_endian32
       (md_padding_result Sha_length_bytes Sha256_processBlock (m_hash s) (m_numBytes s) (buffered s)))"
proof -
  let ?h = "md_padding_result Sha_length_bytes Sha256_processBlock (m_hash s) (m_numBytes s) (buffered s)"
  have "length ?h = 8"
    by (simp add: length_md_padding_result)
  then have "sha_output 8 ?h = concat (map big_endian32 ?h)"
    using sha_output_eq [of ?h] by simp
  then show ?thesis
    using assms
    by (simp add: Sha256_hashFinal_def Sha256_processBuffer_def md_processBuffer_hash Let_def)
qed

lemma foldl_block_hashCore_cong:
  assumes "block_invariant B s" and "block_invariant B t"
    and "m_hash s = m_hash t" and "m_numBytes s = m_numBytes t" and "buffered s = buffered t"
    and "m_bufferSize s = m_bufferSize t"
  shows "m_hash (foldl (block_hashCore B pb) s cs) = m_hash (foldl (block_hashCore B pb) t cs)"
    and "m_numBytes (foldl (block_hashCore B pb) s cs) = m_numBytes (foldl (block_hashCore B pb) t cs)"
    and "buffered (foldl (block_hashCore B pb) s cs) = buffered (foldl (block_hashCore B pb) t cs)"
proof -
  have B: "0 < B" and s: "m_bufferSize s < B" "B \<le> length (m_buffer s)"
    and t: "m_bufferSize t < B" "B \<le> length (m_buffer t)"
    using assms(1,2) by (simp_all add: block_invariant_def)
  note fs = foldl_block_hashCore [OF B s, of pb cs]
  note ft = foldl_block_hashCore [OF B t, of pb cs]
  show "m_hash (foldl (block_hashCore B pb) s cs) = m_hash (foldl (block_hashCore B pb) t cs)"
    using fs ft assms(3-6) by simp
  show "m_numBytes (foldl (block_hashCore B pb) s cs) = m_numBytes (foldl (block_hashCore B pb) t cs)"
    using fs ft assms(3-6) by simp
  show "buffered (foldl (block_hashCore B pb) s cs) = buffered (foldl (block_hashCore B pb) t cs)"
    using fs ft assms(3-6) by simp
qed

lemma foldl_block_hashCore_invariant:
  "block_invariant B s \<Longrightarrow> block_invariant B (foldl (block_hashCore B pb) s cs)"
  by (induction cs arbitrary: s) (simp_all add: block_hashCore_invariant)

lemma foldl_block_hashCore_length:
  "block_invariant B s \<Longrightarrow> length (m_buffer (foldl (block_hashCore B pb) s cs)) = length (m_buffer s)"
  using foldl_block_hashCore [of B s pb cs] by (simp add: block_invariant_def)

text \<open>
  The three algorithms at once: the digest that \<^verbatim>\<open>hashFinal\<close> returns is a function \<open>out\<close>
  of the registers after the padding.
\<close>

lemma md_final_after_hashFinal:
  fixes pb :: "u32 list \<Rightarrow> byte list \<Rightarrow> u32 list"
  assumes fin: "\<And>s. final s = (out (m_hash (md_processBuffer lb pb s)), (md_processBuffer lb pb s)\<lparr>m_hash := m_hash s\<rparr>)"
    and lb: "\<And>m. length (lb m) = 8"
    and n: "m_bufferSize s < 64" and len: "length (m_buffer s) = 64"
  shows "m_hash (snd (final s)) = m_hash s \<and>
     m_numBytes (snd (final s)) = m_numBytes s \<and>
     m_bufferSize (snd (final s)) = m_bufferSize s \<and>
     fst (final (snd (final s))) = fst (final s) \<and>
     fst (final (foldl (block_hashCore 64 pb) (snd (final s)) chunks)) =
       fst (final (foldl (block_hashCore 64 pb) s chunks))"
proof -
  let ?t = "(md_processBuffer lb pb s)\<lparr>m_hash := m_hash s\<rparr>"
  have i: "block_invariant 64 s"
    using n len by (simp add: block_invariant_def)
  note t = md_hashFinal_state [OF i len lb, where pb = pb]
  have d: "fst (final u) = out (md_padding_result lb pb (m_hash u) (m_numBytes u) (buffered u))"
    if "block_invariant 64 u" and "length (m_buffer u) = 64" for u
    using that lb by (simp add: fin md_processBuffer_hash)
  have same: "fst (final u) = fst (final w)"
    if "block_invariant 64 u" and "length (m_buffer u) = 64"
      and "block_invariant 64 w" and "length (m_buffer w) = 64"
      and "m_hash u = m_hash w" and "m_numBytes u = m_numBytes w" and "buffered u = buffered w"
    for u w
    using that by (simp add: d)
  have again: "fst (final ?t) = fst (final s)"
    using t i len by (intro same) simp_all
  let ?ut = "foldl (block_hashCore 64 pb) ?t chunks"
  let ?us = "foldl (block_hashCore 64 pb) s chunks"
  have "fst (final ?ut) = fst (final ?us)"
  proof (rule same)
    show "block_invariant 64 ?ut" "block_invariant 64 ?us"
      using t(6) i by (simp_all add: foldl_block_hashCore_invariant)
    show "length (m_buffer ?ut) = 64" "length (m_buffer ?us) = 64"
      using t(5,6) i len by (simp_all add: foldl_block_hashCore_length)
    show "m_hash ?ut = m_hash ?us" "m_numBytes ?ut = m_numBytes ?us" "buffered ?ut = buffered ?us"
      using t i by (simp_all add: foldl_block_hashCore_cong [of 64 ?t s])
  qed
  with again t show ?thesis
    by (simp add: fin)
qed

text \<open>
  Claim C4.  For Md5, Sha1 and Sha256 and every state of an instance (fill level below
  64, buffer of 64 bytes): \<^verbatim>\<open>hashFinal\<close> leaves \<^verbatim>\<open>m_hash\<close>, \<^verbatim>\<open>m_numBytes\<close> and
  \<^verbatim>\<open>m_bufferSize\<close> as they were; a second \<^verbatim>\<open>hashFinal\<close> right after the first returns the
  same digest; and after any further \<^verbatim>\<open>hashCore\<close> calls the digest is the one that the
  same calls give when \<^verbatim>\<open>hashFinal\<close> has not been called in between.
\<close>

theorem hashFinal_restores_registers:
  assumes "v \<in> {Md5_virtuals, Sha1_virtuals, Sha256_virtuals}"
    and "m_bufferSize s < 64" and "length (m_buffer s) = 64"
  shows "m_hash (snd (hashFinal v s)) = m_hash s \<and>
     m_numBytes (snd (hashFinal v s)) = m_numBytes s \<and>
     m_bufferSize (snd (hashFinal v s)) = m_bufferSize s \<and>
     fst (hashFinal v (snd (hashFinal v s))) = fst (hashFinal v s) \<and>
     fst (hashFinal v (foldl (hashCore v) (snd (hashFinal v s)) chunks)) =
       fst (hashFinal v (foldl (hashCore v) s chunks))"
proof -
  from assms(1) consider "v = Md5_virtuals" | "v = Sha1_virtuals" | "v = Sha256_virtuals"
    by blast
  then show ?thesis
  proof cases
    case 1
    have "Md5_hashFinal s = (take (Md5_hashSize div 8) (concat (map memory_bytes32 (m_hash (md_processBuffer Md5_length_bytes Md5_processBlock s)))),
        (md_processBuffer Md5_length_bytes Md5_processBlock s)\<lparr>m_hash := m_hash s\<rparr>)" for s
      by (simp add: Md5_hashFinal_def Md5_processBuffer_def Let_def)
    from md_final_after_hashFinal [of Md5_hashFinal "\<lambda>h. take (Md5_hashSize div 8) (concat (map memory_bytes32 h))",
        OF this _ assms(2,3), of chunks]
    show ?thesis
      unfolding 1 by (simp add: Md5_virtuals_def Md5_hashCore_def)
  next
    case 2
    have "Sha1_hashFinal s = (sha_output 5 (m_hash (md_processBuffer Sha_length_bytes Sha1_processBlock s)),
        (md_processBuffer Sha_length_bytes Sha1_processBlock s)\<lparr>m_hash := m_hash s\<rparr>)" for s
      by (simp add: Sha1_hashFinal_def Sha1_processBuffer_def Let_def)
    from md_final_after_hashFinal [of Sha1_hashFinal "sha_output 5", OF this _ assms(2,3), of chunks]
    show ?thesis
      unfolding 2 by (simp add: Sha1_virtuals_def Sha1_hashCore_def)
  next
    case 3
    have "Sha256_hashFinal s = (sha_output 8 (m_hash (md_processBuffer Sha_length_bytes Sha256_processBlock s)),
        (md_processBuffer Sha_length_bytes Sha256_processBlock s)\<lparr>m_hash := m_hash s\<rparr>)" for s
      by (simp add: Sha256_hashFinal_def Sha256_processBuffer_def Let_def)
    from md_final_after_hashFinal [of Sha256_hashFinal "sha_output 8", OF this _ assms(2,3), of chunks]
    show ?thesis
      unfolding 3 by (simp add: Sha256_virtuals_def Sha256_hashCore_def)
  qed
qed

theorem hashFinal_restores_registers_witness:
  "Md5_virtuals \<in> {Md5_virtuals, Sha1_virtuals, Sha256_virtuals} \<and>
   m_bufferSize Md5 < 64 \<and> length (m_buffer Md5) = 64 \<and>
   m_hash (snd (hashFinal Md5_virtuals Md5)) = m_hash Md5 \<and>
   m_numBytes (snd (hashFinal Md5_virtuals Md5)) = m_numBytes Md5 \<and>
   m_bufferSize (snd (hashFinal Md5_virtuals Md5)) = m_bufferSize Md5 \<and>
   fst (hashFinal Md5_virtuals (snd (hashFinal Md5_virtuals Md5))) = fst (hashFinal Md5_virtuals Md5) \<and>
   fst (hashFinal Md5_virtuals
          (foldl (hashCore Md5_virtuals) (snd (hashFinal Md5_virtuals Md5)) [[0x61, 0x62], [0x63]])) =
     fst (hashFinal Md5_virtuals (foldl (hashCore Md5_virtuals) Md5 [[0x61, 0x62], [0x63]]))"
proof -
  have h: "Md5_virtuals \<in> {Md5_virtuals, Sha1_virtuals, Sha256_virtuals}"
    "m_bufferSize Md5 < 64" "length (m_buffer Md5) = 64"
    by (simp_all add: Md5_def Md5_initialize_def)
  from hashFinal_restores_registers [OF h, of "[[0x61, 0x62], [0x63]]"] h show ?thesis
    by blast
qed
section \<open>The padding of the Merkle-Damgard classes\<close>

text \<open>
  Two states in the middle of a message, for instantiating the statements about the
  padding: 64 bytes processed and 3 or 60 bytes pending in the buffer, the rest of the
  buffer holding stale bytes.  The message lengths are 536 and 992 bits.
\<close>

definition three_pending :: "md_state \<Rightarrow> md_state" where
  "three_pending s =
     s\<lparr>m_numBytes := 64, m_bufferSize := 3, m_buffer := [0x61, 0x62, 0x63] @ replicate 61 0xAA\<rparr>"

definition sixty_pending :: "md_state \<Rightarrow> md_state" where
  "sixty_pending s =
     s\<lparr>m_numBytes := 64, m_bufferSize := 60, m_buffer := replicate 60 0x61 @ replicate 4 0xAA\<rparr>"

text \<open>A compression function that records the blocks it is given behind the registers.\<close>

definition record_block :: "u32 list \<Rightarrow> byte list \<Rightarrow> u32 list" where
  "record_block h block = h @ map ucast block"

lemma little_endian64_536: "little_endian64 (8 * (64 + of_nat 3)) = [0x18, 0x02, 0, 0, 0, 0, 0, 0]"
  by (simp add: little_endian64_def)

lemma big_endian64_536: "big_endian64 (8 * (64 + of_nat 3)) = [0, 0, 0, 0, 0, 0, 0x02, 0x18]"
  by (simp add: big_endian64_def)

lemma little_endian64_992: "little_endian64 (8 * (64 + of_nat 60)) = [0xE0, 0x03, 0, 0, 0, 0, 0, 0]"
  by (simp add: little_endian64_def)

lemma big_endian64_992: "big_endian64 (8 * (64 + of_nat 60)) = [0, 0, 0, 0, 0, 0, 0x03, 0xE0]"
  by (simp add: big_endian64_def)

text \<open>
  Claim C3.  In \<^verbatim>\<open>processBuffer\<close>, with \<open>n\<close> buffered bytes: the byte \<^verbatim>\<open>0x80\<close> and zeros
  follow the buffered bytes, and the bit length of the message, eight times the sum of
  the processed and the buffered bytes, ends the padding as a 64-bit integer, least
  significant byte first in Md5 and most significant byte first in Sha1 and Sha256.
  When the \<^verbatim>\<open>0x80\<close> byte and the eight length bytes fit into the 64-byte block behind the
  buffered bytes, one block is processed; when they do not, the first block ends with
  zeros and a second block of 56 zeros and the length is processed after it.

  The blocks are those that the compression function is applied to.  The first two
  statements hold for any function \<open>pb\<close> in the place of \<^verbatim>\<open>processBlock\<close>, so they fix the
  blocks themselves; the next three say that the three classes are these instances; the
  last three are the instances.
\<close>

theorem processBuffer_appends_bit_length:
  fixes pb :: "u32 list \<Rightarrow> byte list \<Rightarrow> u32 list"
  assumes "m_bufferSize s < 64" and "length (m_buffer s) = 64"
  shows
    "m_hash (md_processBuffer Md5_length_bytes pb s) =
       (if m_bufferSize s + 1 + 8 \<le> 64
        then pb (m_hash s)
               (take (m_bufferSize s) (m_buffer s) @ [0x80] @ replicate (55 - m_bufferSize s) 0 @
                little_endian64 (8 * (m_numBytes s + of_nat (m_bufferSize s))))
        else pb
               (pb (m_hash s)
                  (take (m_bufferSize s) (m_buffer s) @ [0x80] @ replicate (63 - m_bufferSize s) 0))
               (replicate 56 0 @ little_endian64 (8 * (m_numBytes s + of_nat (m_bufferSize s))))) \<and>
     m_hash (md_processBuffer Sha_length_bytes pb s) =
       (if m_bufferSize s + 1 + 8 \<le> 64
        then pb (m_hash s)
               (take (m_bufferSize s) (m_buffer s) @ [0x80] @ replicate (55 - m_bufferSize s) 0 @
                big_endian64 (8 * (m_numBytes s + of_nat (m_bufferSize s))))
        else pb
               (pb (m_hash s)
                  (take (m_bufferSize s) (m_buffer s) @ [0x80] @ replicate (63 - m_bufferSize s) 0))
               (replicate 56 0 @ big_endian64 (8 * (m_numBytes s + of_nat (m_bufferSize s))))) \<and>
     Md5_processBuffer = md_processBuffer Md5_length_bytes Md5_processBlock \<and>
     Sha1_processBuffer = md_processBuffer Sha_length_bytes Sha1_processBlock \<and>
     Sha256_processBuffer = md_processBuffer Sha_length_bytes Sha256_processBlock \<and>
     m_hash (Md5_processBuffer s) =
       (if m_bufferSize s + 1 + 8 \<le> 64
        then Md5_processBlock (m_hash s)
               (take (m_bufferSize s) (m_buffer s) @ [0x80] @ replicate (55 - m_bufferSize s) 0 @
                little_endian64 (8 * (m_numBytes s + of_nat (m_bufferSize s))))
        else Md5_processBlock
               (Md5_processBlock (m_hash s)
                  (take (m_bufferSize s) (m_buffer s) @ [0x80] @ replicate (63 - m_bufferSize s) 0))
               (replicate 56 0 @ little_endian64 (8 * (m_numBytes s + of_nat (m_bufferSize s))))) \<and>
     m_hash (Sha1_processBuffer s) =
       (if m_bufferSize s + 1 + 8 \<le> 64
        then Sha1_processBlock (m_hash s)
               (take (m_bufferSize s) (m_buffer s) @ [0x80] @ replicate (55 - m_bufferSize s) 0 @
                big_endian64 (8 * (m_numBytes s + of_nat (m_bufferSize s))))
        else Sha1_processBlock
               (Sha1_processBlock (m_hash s)
                  (take (m_bufferSize s) (m_buffer s) @ [0x80] @ replicate (63 - m_bufferSize s) 0))
               (replicate 56 0 @ big_endian64 (8 * (m_numBytes s + of_nat (m_bufferSize s))))) \<and>
     m_hash (Sha256_processBuffer s) =
       (if m_bufferSize s + 1 + 8 \<le> 64
        then Sha256_processBlock (m_hash s)
               (take (m_bufferSize s) (m_buffer s) @ [0x80] @ replicate (55 - m_bufferSize s) 0 @
                big_endian64 (8 * (m_numBytes s + of_nat (m_bufferSize s))))
        else Sha256_processBlock
               (Sha256_processBlock (m_hash s)
                  (take (m_bufferSize s) (m_buffer s) @ [0x80] @ replicate (63 - m_bufferSize s) 0))
               (replicate 56 0 @ big_endian64 (8 * (m_numBytes s + of_nat (m_bufferSize s)))))"
proof -
  have n: "length (buffered s) = m_bufferSize s"
    using assms by (simp add: buffered_def)
  have c: "m_bufferSize s + 1 + 8 \<le> 64 \<longleftrightarrow> m_bufferSize s < 56"
    by arith
  have le: "m_hash (md_processBuffer Md5_length_bytes q s) =
      md_padding_result Md5_length_bytes q (m_hash s) (m_numBytes s) (buffered s)" for q
    unfolding md_processBuffer_def
    using assms by (intro md_processBuffer_from_hash) (simp_all add: Md5_length_bytes_def)
  have be: "m_hash (md_processBuffer Sha_length_bytes q s) =
      md_padding_result Sha_length_bytes q (m_hash s) (m_numBytes s) (buffered s)" for q
    unfolding md_processBuffer_def
    using assms by (intro md_processBuffer_from_hash) (simp_all add: Sha_length_bytes_def)
  show ?thesis
    unfolding Md5_processBuffer_def Sha1_processBuffer_def Sha256_processBuffer_def le be c
      buffered_def [symmetric]
    by (simp add: md_padding_result_def n Md5_length_bytes_eq Sha_length_bytes_eq Let_def)
qed

text \<open>
  The theorem at the two states above, of 536 and 992 message bits, where the two byte
  orders differ and both branches are taken: with the recording function the registers
  after \<^verbatim>\<open>processBuffer\<close> are the padded blocks themselves.
\<close>

theorem processBuffer_appends_bit_length_witness:
  "m_bufferSize (three_pending Md5) < 64 \<and> length (m_buffer (three_pending Md5)) = 64 \<and>
   m_bufferSize (sixty_pending Sha256) < 64 \<and> length (m_buffer (sixty_pending Sha256)) = 64 \<and>
   m_hash (md_processBuffer Md5_length_bytes record_block (three_pending Md5)) =
     record_block (m_hash (three_pending Md5))
        ([0x61, 0x62, 0x63, 0x80] @ replicate 52 0 @ [0x18, 0x02, 0, 0, 0, 0, 0, 0]) \<and>
   m_hash (md_processBuffer Sha_length_bytes record_block (three_pending Sha1)) =
     record_block (m_hash (three_pending Sha1))
        ([0x61, 0x62, 0x63, 0x80] @ replicate 52 0 @ [0, 0, 0, 0, 0, 0, 0x02, 0x18]) \<and>
   m_hash (md_processBuffer Md5_length_bytes record_block (sixty_pending Md5)) =
     record_block (record_block (m_hash (sixty_pending Md5))
        (replicate 60 0x61 @ [0x80] @ replicate 3 0))
        (replicate 56 0 @ [0xE0, 0x03, 0, 0, 0, 0, 0, 0]) \<and>
   m_hash (md_processBuffer Sha_length_bytes record_block (sixty_pending Sha1)) =
     record_block (record_block (m_hash (sixty_pending Sha1))
        (replicate 60 0x61 @ [0x80] @ replicate 3 0))
        (replicate 56 0 @ [0, 0, 0, 0, 0, 0, 0x03, 0xE0]) \<and>
   m_hash (Md5_processBuffer (three_pending Md5)) =
     Md5_processBlock (m_hash (three_pending Md5))
        ([0x61, 0x62, 0x63, 0x80] @ replicate 52 0 @ [0x18, 0x02, 0, 0, 0, 0, 0, 0]) \<and>
   m_hash (Sha1_processBuffer (three_pending Sha1)) =
     Sha1_processBlock (m_hash (three_pending Sha1))
        ([0x61, 0x62, 0x63, 0x80] @ replicate 52 0 @ [0, 0, 0, 0, 0, 0, 0x02, 0x18]) \<and>
   m_hash (Sha256_processBuffer (three_pending Sha256)) =
     Sha256_processBlock (m_hash (three_pending Sha256))
        ([0x61, 0x62, 0x63, 0x80] @ replicate 52 0 @ [0, 0, 0, 0, 0, 0, 0x02, 0x18]) \<and>
   m_hash (Md5_processBuffer (sixty_pending Md5)) =
     Md5_processBlock (Md5_processBlock (m_hash (sixty_pending Md5))
        (replicate 60 0x61 @ [0x80] @ replicate 3 0))
        (replicate 56 0 @ [0xE0, 0x03, 0, 0, 0, 0, 0, 0]) \<and>
   m_hash (Sha1_processBuffer (sixty_pending Sha1)) =
     Sha1_processBlock (Sha1_processBlock (m_hash (sixty_pending Sha1))
        (replicate 60 0x61 @ [0x80] @ replicate 3 0))
        (replicate 56 0 @ [0, 0, 0, 0, 0, 0, 0x03, 0xE0]) \<and>
   m_hash (Sha256_processBuffer (sixty_pending Sha256)) =
     Sha256_processBlock (Sha256_processBlock (m_hash (sixty_pending Sha256))
        (replicate 60 0x61 @ [0x80] @ replicate 3 0))
        (replicate 56 0 @ [0, 0, 0, 0, 0, 0, 0x03, 0xE0])"
proof -
  have t: "m_bufferSize (three_pending x) < 64" "length (m_buffer (three_pending x)) = 64" for x
    by (simp_all add: three_pending_def)
  have u: "m_bufferSize (sixty_pending x) < 64" "length (m_buffer (sixty_pending x)) = 64" for x
    by (simp_all add: sixty_pending_def)
  have tv: "m_bufferSize (three_pending x) = 3" "m_numBytes (three_pending x) = 64"
    "m_buffer (three_pending x) = [0x61, 0x62, 0x63] @ replicate 61 0xAA" for x
    by (simp_all add: three_pending_def)
  have uv: "m_bufferSize (sixty_pending x) = 60" "m_numBytes (sixty_pending x) = 64"
    "m_buffer (sixty_pending x) = replicate 60 0x61 @ replicate 4 0xAA" for x
    by (simp_all add: sixty_pending_def)
  note le = little_endian64_536 little_endian64_992
  note be = big_endian64_536 big_endian64_992
  show ?thesis
    using processBuffer_appends_bit_length [OF t, of record_block Md5]
      processBuffer_appends_bit_length [OF t, of record_block Sha1]
      processBuffer_appends_bit_length [OF t, of record_block Sha256]
      processBuffer_appends_bit_length [OF u, of record_block Md5]
      processBuffer_appends_bit_length [OF u, of record_block Sha1]
      processBuffer_appends_bit_length [OF u, of record_block Sha256]
    unfolding tv uv le be
    by (simp add: t u)
qed

section \<open>The length of the digest\<close>

lemma digest_length_Md5:
  "m_bufferSize s < 64 \<Longrightarrow> length (m_buffer s) = 64 \<Longrightarrow>
   length (fst (Md5_hashFinal s)) = Md5_hashSize div 8"
  by (simp add: Md5_hashFinal_digest block_invariant_def length_concat_fixed length_md_padding_result
      Md5_hashSize_def)

lemma digest_length_Sha1:
  "m_bufferSize s < 64 \<Longrightarrow> length (m_buffer s) = 64 \<Longrightarrow>
   length (fst (Sha1_hashFinal s)) = Sha1_hashSize div 8"
  by (simp add: Sha1_hashFinal_digest block_invariant_def length_concat_fixed length_md_padding_result
      Sha1_hashSize_def)

lemma digest_length_Sha256:
  "m_bufferSize s < 64 \<Longrightarrow> length (m_buffer s) = 64 \<Longrightarrow>
   length (fst (Sha256_hashFinal s)) = Sha256_hashSize div 8"
  by (simp add: Sha256_hashFinal_digest block_invariant_def length_concat_fixed length_md_padding_result
      Sha256_hashSize_def)

lemma digest_length_Sha3:
  "length (m_hash s) = 25 \<Longrightarrow> length (fst (Sha3_hashFinal s)) = Sha3_hashSize s div 8"
  by (cases "m_bits s")
    (simp_all add: Sha3_hashFinal_def Sha3_processBuffer_def Let_def Sha3_hashSize_def length_concat_fixed)

lemma digest_length_Crc32: "length (fst (Crc32_hashFinal s)) = Crc32_hashSize div 8"
  by (simp add: Crc32_hashFinal_def Crc32_hashSize_def Let_def)

lemma digest_length_Crc64: "length (fst (Crc64_hashFinal s)) = Crc64_hashSize div 8"
  by (simp add: Crc64_hashFinal_def Crc64_hashSize_def Let_def)


lemma digest_length_XxHash64: "length (fst (XxHash64_hashFinal s)) = 8"
  by (simp add: XxHash64_hashFinal_def Let_def case_prod_beta)

text \<open>
  Claim C2.  The digest of XxHash64 has eight bytes, for every seed and input, while
  \<^verbatim>\<open>XxHash64::hashSize()\<close> is 32, the number of bits of \<^verbatim>\<open>uint32_t\<close>: the length of the
  digest is not \<^verbatim>\<open>hashSize() / 8\<close>.
\<close>

theorem XxHash64_digest_length_is_not_hashSize:
  "length (fst (computeHash XxHash64_virtuals (XxHash64 seed) data)) = 8 \<and>
   length (fst (XxHash64_hashFinal s)) = 8 \<and>
   XxHash64_hashSize div 8 = 4"
  by (simp add: digest_length_XxHash64 computeHash_def computeHashInternal_def XxHash64_virtuals_def
      XxHash64_hashSize_def Let_def case_prod_beta)
section \<open>computeHash of a stream\<close>





lemma failing_byte_position [simp]: "failing_byte (st\<lparr>is_position := p\<rparr>) = failing_byte st"
  by (simp add: failing_byte_def split: option.splits)

lemma failing_byte_rdstate [simp]: "failing_byte (st\<lparr>is_rdstate := r\<rparr>) = failing_byte st"
  by (simp add: failing_byte_def split: option.splits)



















end
